theory Spec2Isabelle
  imports Main "HOL-Library.Sublist"
begin

section \<open>Strings\<close>

text \<open>
  A JavaScript string is the list of its code units. The code units modelled are those
  of the range 0 to 255 (Latin-1), which holds the class names, the markup and the file
  names the two source files work with.
\<close>

text \<open>
  \<^verbatim>\<open>String.prototype.toLowerCase\<close> on that range: the letters A to Z and the
  Latin-1 capitals (0xC0 to 0xDE, the multiplication sign 0xD7 apart) move up by 32,
  every other code unit stays.
\<close>

definition toLowerCaseChar :: "char \<Rightarrow> char" where
  "toLowerCaseChar c =
     (let n = (of_char c :: nat)
      in if (65 \<le> n \<and> n \<le> 90) \<or> (192 \<le> n \<and> n \<le> 222 \<and> n \<noteq> 215)
         then char_of (n + 32) else c)"

definition toLowerCase :: "string \<Rightarrow> string" where
  "toLowerCase s = map toLowerCaseChar s"

text \<open>\<^verbatim>\<open>s.startsWith(p)\<close>, from position 0.\<close>

fun startsWith :: "string \<Rightarrow> string \<Rightarrow> bool" where
  "startsWith s [] = True"
| "startsWith [] (p # ps) = False"
| "startsWith (c # cs) (p # ps) = (c = p \<and> startsWith cs ps)"

text \<open>\<^verbatim>\<open>s.endsWith(p)\<close>.\<close>

definition endsWith :: "string \<Rightarrow> string \<Rightarrow> bool" where
  "endsWith s p = startsWith (rev s) (rev p)"

text \<open>\<^verbatim>\<open>s.includes(p)\<close>: \<open>p\<close> starts at some position of \<open>s\<close>.\<close>

fun includes_str :: "string \<Rightarrow> string \<Rightarrow> bool" where
  "includes_str [] p = (p = [])"
| "includes_str (c # cs) p = (startsWith (c # cs) p \<or> includes_str cs p)"

text \<open>
  \<^verbatim>\<open>s.replace(p, r)\<close> with a string pattern: the first occurrence of \<open>p\<close> only.
  The replacement used in the source is the empty string, so the dollar patterns of a
  replacement string play no part.
\<close>

fun replace :: "string \<Rightarrow> string \<Rightarrow> string \<Rightarrow> string" where
  "replace [] p r = (if p = [] then r else [])"
| "replace (c # cs) p r =
     (if startsWith (c # cs) p then r @ drop (length p) (c # cs) else c # replace cs p r)"

section \<open>The build tool: vite.config.mjs\<close>

text \<open>
  \<^verbatim>\<open>getComponentNames\<close>: the listing of the components directory
  (\<^verbatim>\<open>readdirSync\<close>) is the argument.
\<close>

definition getComponentNames :: "string list \<Rightarrow> string list" where
  "getComponentNames files =
     map (\<lambda>name. replace name ''.vue'' '''') (filter (\<lambda>name. includes_str name ''.vue'') files)"

text \<open>
  \<^verbatim>\<open>join(BUILD_DIR, file)\<close> for a file name of one segment: the normalised build
  directory, a separator, the name.
\<close>

definition BUILD_DIR :: string where
  "BUILD_DIR = ''./static/build''"

definition join_BUILD_DIR :: "string \<Rightarrow> string" where
  "join_BUILD_DIR file = drop 2 BUILD_DIR @ ''/'' @ file"

definition entry_file :: "string \<Rightarrow> string" where
  "entry_file componentName = join_BUILD_DIR (''vue-tmp-'' @ componentName @ ''.js'')"

text \<open>
  \<^verbatim>\<open>generateViteEntryFile\<close>: the file it writes, as the pair of its path and its
  text. The template starts with a line break.
\<close>

definition component_path :: string where
  "component_path = ''../../openlibrary/components''"

definition generateViteEntryFile :: "string \<Rightarrow> string \<times> string" where
  "generateViteEntryFile componentName =
     (entry_file componentName,
      [CHR 0x0A] @ ''import { createWebComponentSimple } from ''
        @ [CHR 0x27] @ component_path @ ''/rollupInputCore.js'' @ [CHR 0x27] @ '';'' @ [CHR 0x0A]
        @ ''import rootComponent from ''
        @ [CHR 0x27] @ component_path @ ''/'' @ componentName @ ''.vue'' @ [CHR 0x27] @ '';'' @ [CHR 0x0A]
        @ ''createWebComponentSimple(rootComponent, ''
        @ [CHR 0x27] @ componentName @ [CHR 0x27] @ '');'')"

text \<open>The files written: \<^verbatim>\<open>componentNames.forEach(generateViteEntryFile)\<close>.\<close>

definition generated_files :: "string list \<Rightarrow> (string \<times> string) list" where
  "generated_files componentNames = map generateViteEntryFile componentNames"

text \<open>
  The bundler's input object, in insertion order, and the name of the output file of an
  entry (\<^verbatim>\<open>entryFileNames: 'ol-[name].js'\<close>).
\<close>

definition rollup_input :: "string list \<Rightarrow> (string \<times> string) list" where
  "rollup_input componentNames = map (\<lambda>componentName. (componentName, entry_file componentName)) componentNames"

definition entryFileNames :: "string \<Rightarrow> string" where
  "entryFileNames name = ''ol-'' @ name @ ''.js''"

text \<open>The module format of the output (\<^verbatim>\<open>format: 'es'\<close>).\<close>

definition output_format :: string where
  "output_format = ''es''"

section \<open>The page: element objects and the document tree\<close>

text \<open>
  An element created by \<^verbatim>\<open>document.createElement\<close> is an object: the instance keeps
  a reference to it and the document holds it as a child, so it lives in a heap, at an
  address, and a tree holds it as \<open>Mounted\<close> of that address. The page's own elements
  and the nodes the HTML parser builds are held by nobody else and are written in place.
  \<open>Opaque\<close> stands for the nodes the browser builds from markup outside the part of
  HTML modelled below: the source text is kept, what it builds is not said.
\<close>

type_synonym ref = nat

datatype node =
    Element string "string list" "node list"
  | Text string
  | Mounted ref
  | Opaque string

text \<open>
  The class list of an element (\<^verbatim>\<open>DOMTokenList\<close>) is an ordered set of tokens:
  \<^verbatim>\<open>add\<close> appends a token that is not there, \<^verbatim>\<open>remove\<close> takes it out,
  \<^verbatim>\<open>toggle\<close> does the one or the other.
\<close>

definition classList_add :: "string \<Rightarrow> string list \<Rightarrow> string list" where
  "classList_add token cs = (if token \<in> set cs then cs else cs @ [token])"

definition classList_remove :: "string \<Rightarrow> string list \<Rightarrow> string list" where
  "classList_remove token cs = removeAll token cs"

definition classList_toggle :: "string \<Rightarrow> string list \<Rightarrow> string list" where
  "classList_toggle token cs =
     (if token \<in> set cs then classList_remove token cs else cs @ [token])"

fun classes :: "node \<Rightarrow> string list" where
  "classes (Element t cs ks) = cs"
| "classes n = []"

fun children :: "node \<Rightarrow> node list" where
  "children (Element t cs ks) = ks"
| "children n = []"

fun map_classes :: "(string list \<Rightarrow> string list) \<Rightarrow> node \<Rightarrow> node" where
  "map_classes f (Element t cs ks) = Element t (f cs) ks"
| "map_classes f n = n"

fun map_children :: "(node list \<Rightarrow> node list) \<Rightarrow> node \<Rightarrow> node" where
  "map_children f (Element t cs ks) = Element t cs (f ks)"
| "map_children f n = n"

text \<open>
  A class selector, as \<^verbatim>\<open>querySelector\<close> runs it: the first element in tree order
  that carries the class, given as the path of child positions that leads to it. The
  search does not enter a mounted element or opaque markup.
\<close>

fun query_node :: "string \<Rightarrow> node \<Rightarrow> nat list option"
  and query_list :: "string \<Rightarrow> nat \<Rightarrow> node list \<Rightarrow> nat list option" where
  "query_node cls (Element t cs ks) = (if cls \<in> set cs then Some [] else query_list cls 0 ks)"
| "query_node cls (Text s) = None"
| "query_node cls (Mounted r) = None"
| "query_node cls (Opaque s) = None"
| "query_list cls i [] = None"
| "query_list cls i (n # ns) =
     (case query_node cls n of
        Some p \<Rightarrow> Some (i # p)
      | None \<Rightarrow> query_list cls (Suc i) ns)"

text \<open>\<^verbatim>\<open>element.querySelector\<close> searches the descendants of the element only.\<close>

definition element_querySelector :: "string \<Rightarrow> node \<Rightarrow> nat list option" where
  "element_querySelector cls e = query_list cls 0 (children e)"

text \<open>\<^verbatim>\<open>document.querySelector\<close> searches every element of the document.\<close>

definition document_querySelector :: "string \<Rightarrow> node \<Rightarrow> nat list option" where
  "document_querySelector cls doc = query_node cls doc"

fun node_at :: "nat list \<Rightarrow> node \<Rightarrow> node option" where
  "node_at [] n = Some n"
| "node_at (i # p) n = (if i < length (children n) then node_at p (children n ! i) else None)"

fun modify_at :: "nat list \<Rightarrow> (node \<Rightarrow> node) \<Rightarrow> node \<Rightarrow> node" where
  "modify_at [] f n = f n"
| "modify_at (i # p) f n =
     (if i < length (children n)
      then map_children (\<lambda>ks. ks[i := modify_at p f (ks ! i)]) n
      else n)"

text \<open>
  \<^verbatim>\<open>node.remove()\<close> takes the element out of its parent's children; an element
  without a parent stays as it is.
\<close>

fun detach :: "ref \<Rightarrow> node \<Rightarrow> node"
  and detach_list :: "ref \<Rightarrow> node list \<Rightarrow> node list" where
  "detach r (Element t cs ks) = Element t cs (detach_list r ks)"
| "detach r (Text s) = Text s"
| "detach r (Mounted q) = Mounted q"
| "detach r (Opaque s) = Opaque s"
| "detach_list r [] = []"
| "detach_list r (n # ns) =
     (if n = Mounted r then detach_list r ns else detach r n # detach_list r ns)"

text \<open>The addresses mounted in a tree, in tree order.\<close>

fun mounted :: "node \<Rightarrow> ref list"
  and mounted_list :: "node list \<Rightarrow> ref list" where
  "mounted (Element t cs ks) = mounted_list ks"
| "mounted (Text s) = []"
| "mounted (Mounted r) = [r]"
| "mounted (Opaque s) = []"
| "mounted_list [] = []"
| "mounted_list (n # ns) = mounted n @ mounted_list ns"

text \<open>
  The page a \<^verbatim>\<open>SelectedTag\<close> runs in: the document, the heap of created elements,
  the next free address, and the properties \<^verbatim>\<open>Object.prototype\<close> hands down to every
  object literal, each as the text a template literal makes of it.
\<close>

record page =
  document :: node
  heap :: "ref \<Rightarrow> node"
  next_ref :: ref
  objectPrototype :: "string \<rightharpoonup> string"

definition createElement :: "string \<Rightarrow> page \<Rightarrow> ref \<times> page" where
  "createElement t w =
     (next_ref w, w\<lparr>heap := (heap w)(next_ref w := Element t [] []), next_ref := Suc (next_ref w)\<rparr>)"

definition update_element :: "ref \<Rightarrow> (node \<Rightarrow> node) \<Rightarrow> page \<Rightarrow> page" where
  "update_element r f w = w\<lparr>heap := (heap w)(r := f (heap w r))\<rparr>"

section \<open>Assigning to innerHTML: the HTML fragment parser\<close>

text \<open>
  The part of the HTML parsing algorithm modelled is the one the template of
  \<^verbatim>\<open>renderAndAttach\<close> is written in: character data, the reference
  \<^verbatim>\<open>&amp;\<close>, the start tags \<^verbatim>\<open><span>\<close> and \<^verbatim>\<open><span class="...">\<close> and the end
  tag \<^verbatim>\<open></span>\<close>. On that part the tokens and the tree are those of the algorithm.
  At the first construct outside it (any other tag, comment or character reference, a
  NUL or a carriage return) the model stops: the rest of the source text becomes one
  \<open>Opaque\<close> node at the place the parser has reached.
\<close>

definition is_ascii_whitespace :: "char \<Rightarrow> bool" where
  "is_ascii_whitespace c = (c \<in> set [CHR 0x09, CHR 0x0A, CHR 0x0C, CHR 0x0D, CHR 0x20])"

definition is_ascii_alpha :: "char \<Rightarrow> bool" where
  "is_ascii_alpha c = (c \<in> set ''abcdefghijklmnopqrstuvwxyzABCDEFGHIJKLMNOPQRSTUVWXYZ'')"

definition is_ascii_digit :: "char \<Rightarrow> bool" where
  "is_ascii_digit c = (c \<in> set ''0123456789'')"

text \<open>The tokens of a class attribute: split at white space, each token kept once.\<close>

fun split_on_whitespace :: "string \<Rightarrow> string \<Rightarrow> string list" where
  "split_on_whitespace tok [] = (if tok = [] then [] else [tok])"
| "split_on_whitespace tok (c # cs) =
     (if is_ascii_whitespace c
      then (if tok = [] then split_on_whitespace [] cs else tok # split_on_whitespace [] cs)
      else split_on_whitespace (tok @ [c]) cs)"

definition class_tokens :: "string \<Rightarrow> string list" where
  "class_tokens v = fold classList_add (split_on_whitespace [] v) []"

fun strip_prefix :: "string \<Rightarrow> string \<Rightarrow> string option" where
  "strip_prefix [] s = Some s"
| "strip_prefix (p # ps) [] = None"
| "strip_prefix (p # ps) (c # cs) = (if p = c then strip_prefix ps cs else None)"

text \<open>
  A double-quoted attribute value, read from behind the opening quote: the value and
  the text behind the closing quote. A value with an ampersand, a NUL or a carriage
  return is outside the part modelled, as is one that never closes.
\<close>

fun attribute_value :: "string \<Rightarrow> (string \<times> string) option" where
  "attribute_value [] = None"
| "attribute_value (c # cs) =
     (if c = CHR 0x22 then Some ([], cs)
      else if c = CHR ''&'' \<or> c = CHR 0x00 \<or> c = CHR 0x0D then None
      else (case attribute_value cs of
              None \<Rightarrow> None
            | Some (v, rest) \<Rightarrow> Some (c # v, rest)))"

datatype token = StartTag "string list" | EndTag | Character char

text \<open>
  After \<^verbatim>\<open><\<close>, a letter, a slash, an exclamation mark or a question mark opens
  markup; anything else leaves the \<^verbatim>\<open><\<close> a character of the text. After
  \<^verbatim>\<open>&\<close>, a letter, a digit or a number sign opens a character reference; anything
  else leaves the \<^verbatim>\<open>&\<close> a character of the text.
\<close>

definition opens_markup :: "string \<Rightarrow> bool" where
  "opens_markup cs =
     (case cs of
        [] \<Rightarrow> False
      | d # ds \<Rightarrow> is_ascii_alpha d \<or> d = CHR ''/'' \<or> d = CHR ''!'' \<or> d = CHR ''?'')"

definition opens_reference :: "string \<Rightarrow> bool" where
  "opens_reference cs =
     (case cs of
        [] \<Rightarrow> False
      | d # ds \<Rightarrow> is_ascii_alpha d \<or> is_ascii_digit d \<or> d = CHR ''#'')"

text \<open>
  The tokenizer: the next token of the source text and the text behind it, or \<open>None\<close>
  where the text leaves the part modelled.
\<close>

definition next_token :: "char \<Rightarrow> string \<Rightarrow> (token \<times> string) option" where
  \<open>next_token c cs =
     (if c = CHR ''<'' then
        (case strip_prefix ''/span>'' cs of
           Some rest \<Rightarrow> Some (EndTag, rest)
         | None \<Rightarrow>
        (case strip_prefix ''span>'' cs of
           Some rest \<Rightarrow> Some (StartTag [], rest)
         | None \<Rightarrow>
        (case strip_prefix ''span class="'' cs of
           Some rest \<Rightarrow>
             (case attribute_value rest of
                None \<Rightarrow> None
              | Some (v, rest') \<Rightarrow>
                  (case strip_prefix ''>'' rest' of
                     None \<Rightarrow> None
                   | Some rest'' \<Rightarrow> Some (StartTag (class_tokens v), rest'')))
         | None \<Rightarrow> if opens_markup cs then None else Some (Character c, cs))))
      else if c = CHR ''&'' then
        (case strip_prefix ''amp;'' cs of
           Some rest \<Rightarrow> Some (Character c, rest)
         | None \<Rightarrow> if opens_reference cs then None else Some (Character c, cs))
      else if c = CHR 0x00 \<or> c = CHR 0x0D then None
      else Some (Character c, cs))\<close>

text \<open>
  The tree builder. Its state is the stack of open \<^verbatim>\<open>span\<close> elements, innermost
  first, each with its classes and the siblings before it, and the children of the
  innermost open element so far; sibling lists are kept latest first. A character joins
  the text node before it, if there is one. An end tag closes the innermost open
  \<^verbatim>\<open>span\<close>; with none open it is ignored.
\<close>

type_synonym frame = "string list \<times> node list"

type_synonym builder = "frame list \<times> node list"

fun append_char :: "char \<Rightarrow> node list \<Rightarrow> node list" where
  "append_char c (Text s # ns) = Text (s @ [c]) # ns"
| "append_char c ns = Text [c] # ns"

fun insert_token :: "token \<Rightarrow> builder \<Rightarrow> builder" where
  "insert_token (StartTag cls) (stk, cur) = ((cls, cur) # stk, [])"
| "insert_token EndTag ([], cur) = ([], cur)"
| "insert_token EndTag ((cls, sibs) # stk, cur) = (stk, Element ''span'' cls (rev cur) # sibs)"
| "insert_token (Character c) (stk, cur) = (stk, append_char c cur)"

text \<open>The end of the text closes every element still open.\<close>

fun close_all :: "builder \<Rightarrow> node list" where
  "close_all ([], cur) = rev cur"
| "close_all ((cls, sibs) # stk, cur) = close_all (stk, Element ''span'' cls (rev cur) # sibs)"

function parse_loop :: "builder \<Rightarrow> string \<Rightarrow> node list" where
  "parse_loop b [] = close_all b"
| "parse_loop b (c # cs) =
     (case next_token c cs of
        None \<Rightarrow> close_all (fst b, Opaque (c # cs) # snd b)
      | Some (tok, rest) \<Rightarrow> parse_loop (insert_token tok b) rest)"
  by pat_completeness auto
termination
proof (relation "measure (\<lambda>(b, s). length s)")
  show "wf (measure (\<lambda>(b, s). length s))"
    by simp
next
  fix b :: builder and c :: char and cs rest :: string and x :: "token \<times> string" and tok :: token
  assume tk: "next_token c cs = Some x" and x: "(tok, rest) = x"
  have strip: "length r \<le> length s" if "strip_prefix p s = Some r" for p s r
    using that by (induction p s rule: strip_prefix.induct) (auto split: if_splits)
  have attr: "length r < length s" if "attribute_value s = Some (v, r)" for s v r
    using that by (induction s arbitrary: v r) (auto split: if_splits option.splits)
  have "length rest \<le> length cs"
    using tk x
    by (auto simp: next_token_def split: if_splits option.splits dest!: strip attr)
  then show "((insert_token tok b, rest), (b, c # cs)) \<in> measure (\<lambda>(b, s). length s)"
    by simp
qed

definition parse_fragment :: "string \<Rightarrow> node list" where
  "parse_fragment s = parse_loop ([], []) s"

text \<open>\<^verbatim>\<open>element.innerHTML = markup\<close> replaces the children by the parsed nodes.\<close>

definition set_innerHTML :: "string \<Rightarrow> node \<Rightarrow> node" where
  "set_innerHTML markup e = map_children (\<lambda>ks. parse_fragment markup) e"

section \<open>The class SelectedTag\<close>

text \<open>
  The object literal \<^verbatim>\<open>classTypeSuffixes\<close>, with its own four properties.
\<close>

definition classTypeSuffixes :: "string \<rightharpoonup> string" where
  "classTypeSuffixes =
     map_of [(''subjects'', ''--subject''),
             (''subject_people'', ''--person''),
             (''subject_places'', ''--place''),
             (''subject_times'', ''--time'')]"

text \<open>
  \<^verbatim>\<open>${classTypeSuffixes[key]}\<close>: the object's own property, else the one handed down
  by \<^verbatim>\<open>Object.prototype\<close>, else \<^verbatim>\<open>undefined\<close>, as the text the template literal
  makes of it.
\<close>

definition suffix_text :: "page \<Rightarrow> string \<Rightarrow> string" where
  "suffix_text w key =
     (case classTypeSuffixes key of
        Some v \<Rightarrow> v
      | None \<Rightarrow> (case objectPrototype w key of Some v \<Rightarrow> v | None \<Rightarrow> ''undefined''))"

text \<open>
  The fields of an instance. \<open>selectedTag\<close> is the reference to the root element; the
  constructor names the field without assigning it, so it is \<open>None\<close> (undefined) until
  \<^verbatim>\<open>renderAndAttach\<close> assigns it.
\<close>

record SelectedTag =
  selectedTag :: "ref option"
  tagType :: string
  tagName :: string
  allWorksTagged :: bool
  isVisible :: bool
  LOWERCASE_TAG_NAME :: string

definition constructor :: "string \<Rightarrow> string \<Rightarrow> bool \<Rightarrow> SelectedTag" where
  "constructor tagType' tagName' allWorksTagged' =
     \<lparr>selectedTag = None,
      tagType = tagType',
      tagName = tagName',
      allWorksTagged = allWorksTagged',
      isVisible = True,
      LOWERCASE_TAG_NAME = toLowerCase tagName'\<rparr>"

text \<open>
  A method runs on the instance and the page and leaves both changed. It completes
  (\<open>Inr ()\<close>) or throws (\<open>Inl\<close>); what it changed before it threw stays changed.
  Reading a property of \<^verbatim>\<open>undefined\<close> or \<^verbatim>\<open>null\<close> throws a \<^verbatim>\<open>TypeError\<close>.
\<close>

datatype error = TypeError

type_synonym state = "SelectedTag \<times> page"

type_synonym outcome = "(error + unit) \<times> state"

text \<open>The template literal of \<^verbatim>\<open>renderAndAttach\<close>, line breaks and indentation included.\<close>

definition markup :: "SelectedTag \<Rightarrow> page \<Rightarrow> string" where
  \<open>markup this w =
     ''<span class="selected-tag__status selected-tag__status--''
       @ (if allWorksTagged this then ''all-tagged'' else ''some-tagged'')
       @ ''"></span>'' @ [CHR 0x0A]
     @ ''            <span class="selected-tag__type selected-tag__type''
       @ suffix_text w (tagType this)
       @ ''"></span>'' @ [CHR 0x0A]
     @ ''            <span class="selected-tag__name">'' @ tagName this @ ''</span>''\<close>

definition renderAndAttach :: "state \<Rightarrow> outcome" where
  "renderAndAttach s =
     (case s of (this, w) \<Rightarrow>
        (case createElement ''div'' w of (parentElem, w1) \<Rightarrow>
           let w2 = update_element parentElem (map_classes (classList_add ''selected-tag'')) w1;
               w3 = update_element parentElem (set_innerHTML (markup this w)) w2
           in (case document_querySelector ''selected-tag-subjects'' (document w3) of
                 None \<Rightarrow> (Inl TypeError, this, w3)
               | Some selectedTagsElem \<Rightarrow>
                   (Inr (),
                    this\<lparr>selectedTag := Some parentElem\<rparr>,
                    w3\<lparr>document :=
                         modify_at selectedTagsElem
                           (map_children (\<lambda>ks. Mounted parentElem # ks)) (document w3)\<rparr>))))"

definition remove :: "state \<Rightarrow> outcome" where
  "remove s =
     (case s of (this, w) \<Rightarrow>
        (case selectedTag this of
           None \<Rightarrow> (Inl TypeError, this, w)
         | Some r \<Rightarrow> (Inr (), this, w\<lparr>document := detach r (document w)\<rparr>)))"

definition updateAllWorksTagged :: "bool \<Rightarrow> state \<Rightarrow> outcome" where
  "updateAllWorksTagged allWorksTagged' s =
     (case s of (this0, w) \<Rightarrow>
        let this = this0\<lparr>allWorksTagged := allWorksTagged'\<rparr>
        in (case selectedTag this of
              None \<Rightarrow> (Inl TypeError, this, w)
            | Some r \<Rightarrow>
                (case element_querySelector ''selected-tag__status'' (heap w r) of
                   None \<Rightarrow> (Inl TypeError, this, w)
                 | Some statusIndicator \<Rightarrow>
                     if allWorksTagged'
                     then (Inr (), this,
                           update_element r
                             (modify_at statusIndicator
                                (map_classes
                                   (classList_add ''selected-tag__status--all-tagged''
                                    \<circ> classList_remove ''selected-tag__status--some-tagged''))) w)
                     else (Inr (), this,
                           update_element r
                             (modify_at statusIndicator
                                (map_classes
                                   (classList_add ''selected-tag__status--some-tagged''
                                    \<circ> classList_remove ''selected-tag__status--all-tagged''))) w))))"

definition hide :: "state \<Rightarrow> outcome" where
  "hide s =
     (case s of (this, w) \<Rightarrow>
        (case selectedTag this of
           None \<Rightarrow> (Inl TypeError, this, w)
         | Some r \<Rightarrow>
             (Inr (),
              this\<lparr>isVisible := False\<rparr>,
              update_element r (map_classes (classList_add ''hidden'')) w)))"

definition show_tag :: "state \<Rightarrow> outcome" where
  "show_tag s =
     (case s of (this, w) \<Rightarrow>
        (case selectedTag this of
           None \<Rightarrow> (Inl TypeError, this, w)
         | Some r \<Rightarrow>
             (Inr (),
              this\<lparr>isVisible := True\<rparr>,
              update_element r (map_classes (classList_remove ''hidden'')) w)))"

definition toggleVisibility :: "state \<Rightarrow> outcome" where
  "toggleVisibility s =
     (case s of (this, w) \<Rightarrow>
        (case selectedTag this of
           None \<Rightarrow> (Inl TypeError, this, w)
         | Some r \<Rightarrow>
             (Inr (),
              this\<lparr>isVisible := \<not> isVisible this\<rparr>,
              update_element r (map_classes (classList_toggle ''hidden'')) w)))"

definition tagNameStartsWith :: "SelectedTag \<Rightarrow> string \<Rightarrow> bool" where
  "tagNameStartsWith this searchString =
     startsWith (LOWERCASE_TAG_NAME this) (toLowerCase searchString)"

text \<open>
  A caller's sequence of method calls. A call that throws leaves the state it reached;
  the caller goes on from there.
\<close>

datatype call =
    RenderAndAttach
  | Remove
  | UpdateAllWorksTagged bool
  | Hide
  | Show
  | ToggleVisibility

fun invoke :: "call \<Rightarrow> state \<Rightarrow> outcome" where
  "invoke RenderAndAttach s = renderAndAttach s"
| "invoke Remove s = remove s"
| "invoke (UpdateAllWorksTagged b) s = updateAllWorksTagged b s"
| "invoke Hide s = hide s"
| "invoke Show s = show_tag s"
| "invoke ToggleVisibility s = toggleVisibility s"

fun run :: "call list \<Rightarrow> state \<Rightarrow> state" where
  "run [] s = s"
| "run (c # cs) s = run cs (snd (invoke c s))"

text \<open>The results of the calls of a sequence, in order.\<close>

fun results :: "call list \<Rightarrow> state \<Rightarrow> (error + unit) list" where
  "results [] s = []"
| "results (c # cs) s = fst (invoke c s) # results cs (snd (invoke c s))"

section \<open>What the claims observe\<close>

text \<open>
  The element the instance refers to, the classes of that element, and whether the
  hidden-state marker is among them.
\<close>

definition mounted_node :: "state \<Rightarrow> node option" where
  "mounted_node s = (case s of (this, w) \<Rightarrow> map_option (heap w) (selectedTag this))"

definition root_classes :: "state \<Rightarrow> string list option" where
  "root_classes s = map_option classes (mounted_node s)"

definition hidden_marker :: "state \<Rightarrow> bool" where
  "hidden_marker s = (case root_classes s of None \<Rightarrow> False | Some cs \<Rightarrow> ''hidden'' \<in> set cs)"

text \<open>
  The classes of the status element: the element that
  \<^verbatim>\<open>querySelector('.selected-tag__status')\<close> finds in the mounted node.
\<close>

definition status_classes :: "state \<Rightarrow> string list option" where
  "status_classes s =
     (case mounted_node s of
        None \<Rightarrow> None
      | Some e \<Rightarrow>
          (case element_querySelector ''selected-tag__status'' e of
             None \<Rightarrow> None
           | Some p \<Rightarrow> map_option classes (node_at p e)))"

text \<open>The children of the text label, the element of class \<^verbatim>\<open>selected-tag__name\<close>.\<close>

definition label_children :: "state \<Rightarrow> node list option" where
  "label_children s =
     (case mounted_node s of
        None \<Rightarrow> None
      | Some e \<Rightarrow>
          (case element_querySelector ''selected-tag__name'' e of
             None \<Rightarrow> None
           | Some p \<Rightarrow> map_option children (node_at p e)))"

text \<open>The category marker, the element of class \<^verbatim>\<open>selected-tag__type\<close>.\<close>

definition type_classes :: "state \<Rightarrow> string list option" where
  "type_classes s =
     (case mounted_node s of
        None \<Rightarrow> None
      | Some e \<Rightarrow>
          (case element_querySelector ''selected-tag__type'' e of
             None \<Rightarrow> None
           | Some p \<Rightarrow> map_option classes (node_at p e)))"

text \<open>The status element as the template writes it.\<close>

definition status_span :: "bool \<Rightarrow> node" where
  "status_span b =
     Element ''span''
       [''selected-tag__status'',
        if b then ''selected-tag__status--all-tagged'' else ''selected-tag__status--some-tagged'']
       []"

text \<open>The line break and the indentation between two elements of the template.\<close>

definition template_gap :: node where
  "template_gap = Text (CHR 0x0A # ''            '')"

text \<open>
  Text the parser model reads to its end: an attribute value without a quote, an
  ampersand, a NUL or a carriage return, and character data without \<^verbatim>\<open><\<close>, an
  ampersand, a NUL or a carriage return.
\<close>

definition attribute_safe :: "string \<Rightarrow> bool" where
  "attribute_safe v = list_all (\<lambda>c. c \<notin> set [CHR 0x22, CHR ''&'', CHR 0x00, CHR 0x0D]) v"

definition plain_text :: "string \<Rightarrow> bool" where
  "plain_text s = list_all (\<lambda>c. c \<notin> set [CHR ''<'', CHR ''&'', CHR 0x00, CHR 0x0D]) s"

text \<open>The category element as the template writes it, for the text of the suffix.\<close>

definition type_span :: "string \<Rightarrow> node" where
  "type_span sfx = Element ''span'' (class_tokens (''selected-tag__type selected-tag__type'' @ sfx)) []"

text \<open>
  The children of the fragment's root that the tree builder has settled: those of the
  outermost frame, or the current ones when no element is open.
\<close>

fun bottom :: "builder \<Rightarrow> node list" where
  "bottom (stk, cur) = (if stk = [] then cur else snd (last stk))"

text \<open>
  The shape \<^verbatim>\<open>renderAndAttach\<close> gives the mounted node: the instance refers to the
  element at \<open>r\<close>, a \<^verbatim>\<open>div\<close> with the classes \<open>cs\<close>, whose first child is the status
  element for \<open>b\<close>, before the children \<open>rest\<close>.
\<close>

definition rendered_as :: "ref \<Rightarrow> string list \<Rightarrow> bool \<Rightarrow> node list \<Rightarrow> state \<Rightarrow> bool" where
  "rendered_as r cs b rest s =
     (selectedTag (fst s) = Some r \<and> heap (snd s) r = Element ''div'' cs (status_span b # rest))"

text \<open>
  A page to run the class on: a body whose one child is the container of the selected
  tags, holding a heading; no element created yet.
\<close>

definition example_page :: page where
  "example_page =
     \<lparr>document =
        Element ''body'' []
          [Element ''div'' [''selected-tag-subjects''] [Element ''h3'' [] [Text ''Subjects'']]],
      heap = (\<lambda>r. Text []),
      next_ref = 0,
      objectPrototype = Map.empty\<rparr>"

text \<open>The instance of the spec's scenario.\<close>

definition fantasy :: SelectedTag where
  "fantasy = constructor ''subjects'' ''Fantasy'' False"

text \<open>A page without the container.\<close>

definition bare_page :: page where
  "bare_page =
     \<lparr>document = Element ''body'' [] [],
      heap = (\<lambda>r. Text []),
      next_ref = 0,
      objectPrototype = Map.empty\<rparr>"

section \<open>Properties of the build tool\<close>

lemma startsWith_prefix: "startsWith s p = prefix p s"
  by (induction s p rule: startsWith.induct) auto

lemma includes_iff: "includes_str s p = (\<exists>xs ys. s = xs @ p @ ys)"
proof (induction s)
  case Nil
  then show ?case by auto
next
  case (Cons c cs)
  show ?case
  proof
    assume "includes_str (c # cs) p"
    then consider "prefix p (c # cs)" | "includes_str cs p"
      by (auto simp: startsWith_prefix)
    then show "\<exists>xs ys. c # cs = xs @ p @ ys"
    proof cases
      case 1
      then obtain ys where "c # cs = p @ ys" by (auto simp: prefix_def)
      then have "c # cs = [] @ p @ ys" by simp
      then show ?thesis by blast
    next
      case 2
      then obtain xs ys where "cs = xs @ p @ ys" using Cons.IH by auto
      then have "c # cs = (c # xs) @ p @ ys" by simp
      then show ?thesis by blast
    qed
  next
    assume "\<exists>xs ys. c # cs = xs @ p @ ys"
    then obtain xs ys where e: "c # cs = xs @ p @ ys" by blast
    show "includes_str (c # cs) p"
    proof (cases xs)
      case Nil
      then have "prefix p (c # cs)" using e by (simp add: prefix_def)
      then show ?thesis by (simp add: startsWith_prefix)
    next
      case (Cons x xs')
      then have "cs = xs' @ p @ ys" using e by simp
      then have "includes_str cs p" using Cons.IH by blast
      then show ?thesis by simp
    qed
  qed
qed

lemma getComponentNames_selection:
  "getComponentNames files
     = map (\<lambda>name. replace name ''.vue'' [])
         (filter (\<lambda>name. \<exists>xs ys. name = xs @ ''.vue'' @ ys) files)"
  by (simp add: getComponentNames_def includes_iff)

lemma one_entry_per_component:
  "map fst (rollup_input names) = names
   \<and> map snd (rollup_input names) = map fst (generated_files names)
   \<and> length (generated_files names) = length names"
  by (simp add: rollup_input_def generated_files_def generateViteEntryFile_def comp_def)

section \<open>Properties of the parser\<close>

lemma close_all_prefix:
  "bottom b = ys @ Element t c k # zs \<Longrightarrow> \<exists>ns. close_all b = rev zs @ Element t c k # ns"
proof (induction b arbitrary: ys rule: close_all.induct)
  case (1 cur)
  then show ?case by simp
next
  case (2 cls sibs stk cur)
  have "\<exists>ys'. bottom (stk, Element ''span'' cls (rev cur) # sibs) = ys' @ Element t c k # zs"
  proof (cases stk)
    case Nil
    then have "bottom (stk, Element ''span'' cls (rev cur) # sibs)
                 = (Element ''span'' cls (rev cur) # ys) @ Element t c k # zs"
      using "2.prems" by simp
    then show ?thesis by blast
  next
    case (Cons f fs)
    then show ?thesis using "2.prems" by auto
  qed
  then show ?case using "2.IH" by auto
qed

lemma append_char_prefix:
  "\<exists>ys'. append_char ch (ys @ Element t c k # zs) = ys' @ Element t c k # zs"
proof (cases ys)
  case Nil
  then have "append_char ch (ys @ Element t c k # zs) = [Text [ch]] @ Element t c k # zs" by simp
  then show ?thesis by blast
next
  case (Cons y ys')
  show ?thesis
  proof (cases y)
    case (Text s)
    then have "append_char ch (ys @ Element t c k # zs) = (Text (s @ [ch]) # ys') @ Element t c k # zs"
      using Cons by simp
    then show ?thesis by blast
  qed (use Cons in \<open>auto intro: exI[of _ "Text [ch] # ys"]\<close>)
qed

lemma insert_token_bottom:
  assumes "bottom b = ys @ Element t c k # zs"
  shows "\<exists>ys'. bottom (insert_token tok b) = ys' @ Element t c k # zs"
proof (cases b)
  case (Pair stk cur)
  show ?thesis
  proof (cases tok)
    case (StartTag cls)
    then show ?thesis using assms Pair by (cases stk) auto
  next
    case EndTag
    show ?thesis
    proof (cases stk)
      case Nil
      then show ?thesis using assms Pair EndTag by auto
    next
      case (Cons f fs)
      obtain cls sibs where f: "f = (cls, sibs)" by (cases f)
      show ?thesis
      proof (cases fs)
        case Nil
        then have "bottom (insert_token tok b) = (Element ''span'' cls (rev cur) # ys) @ Element t c k # zs"
          using assms Pair EndTag Cons f by simp
        then show ?thesis by blast
      next
        case (Cons g gs)
        then show ?thesis using assms Pair EndTag \<open>stk = f # fs\<close> f by auto
      qed
    qed
  next
    case (Character ch)
    show ?thesis
    proof (cases stk)
      case Nil
      then show ?thesis using assms Pair Character append_char_prefix by auto
    next
      case (Cons f fs)
      then show ?thesis using assms Pair Character by auto
    qed
  qed
qed

lemma parse_loop_prefix:
  "bottom b = ys @ Element t c k # zs \<Longrightarrow> \<exists>ns. parse_loop b s = rev zs @ Element t c k # ns"
proof (induction b s arbitrary: ys rule: parse_loop.induct)
  case (1 b)
  then show ?case using close_all_prefix by simp
next
  case (2 b ch cs)
  show ?case
  proof (cases "next_token ch cs")
    case None
    have "\<exists>ys'. bottom (fst b, Opaque (ch # cs) # snd b) = ys' @ Element t c k # zs"
    proof (cases b)
      case (Pair stk cur)
      show ?thesis
      proof (cases stk)
        case Nil
        then have "bottom (fst b, Opaque (ch # cs) # snd b) = (Opaque (ch # cs) # ys) @ Element t c k # zs"
          using "2.prems" Pair by simp
        then show ?thesis by blast
      next
        case (Cons f fs)
        then show ?thesis using "2.prems" Pair by auto
      qed
    qed
    then show ?thesis using None close_all_prefix by auto
  next
    case (Some x)
    obtain tok rest where x: "x = (tok, rest)" by (cases x)
    obtain ys' where "bottom (insert_token tok b) = ys' @ Element t c k # zs"
      using insert_token_bottom[OF "2.prems"] by blast
    then show ?thesis using "2.IH"[OF Some x[symmetric]] Some x by simp
  qed
qed

lemmas tok_defs = next_token_def class_tokens_def classList_add_def is_ascii_whitespace_def
  opens_markup_def opens_reference_def is_ascii_alpha_def is_ascii_digit_def

lemma parse_status_all:
  \<open>parse_loop (stk, cur) (''<span class="selected-tag__status selected-tag__status--all-tagged"></span>'' @ rest)
     = parse_loop (stk, Element ''span'' [''selected-tag__status'', ''selected-tag__status--all-tagged''] [] # cur) rest\<close>
  by (simp add: tok_defs)

lemma parse_status_some:
  \<open>parse_loop (stk, cur) (''<span class="selected-tag__status selected-tag__status--some-tagged"></span>'' @ rest)
     = parse_loop (stk, Element ''span'' [''selected-tag__status'', ''selected-tag__status--some-tagged''] [] # cur) rest\<close>
  by (simp add: tok_defs)

section \<open>Properties of the class\<close>

lemmas method_defs = renderAndAttach_def remove_def updateAllWorksTagged_def hide_def
  show_tag_def toggleVisibility_def

lemma invoke_keeps_name:
  "LOWERCASE_TAG_NAME (fst (snd (invoke c s))) = LOWERCASE_TAG_NAME (fst s)
   \<and> tagName (fst (snd (invoke c s))) = tagName (fst s)
   \<and> tagType (fst (snd (invoke c s))) = tagType (fst s)"
  by (cases c; cases s)
     (auto simp: method_defs createElement_def Let_def split: option.splits prod.splits)

lemma run_keeps_name:
  "LOWERCASE_TAG_NAME (fst (run cs s)) = LOWERCASE_TAG_NAME (fst s)
   \<and> tagName (fst (run cs s)) = tagName (fst s)
   \<and> tagType (fst (run cs s)) = tagType (fst s)"
  by (induction cs arbitrary: s) (simp_all add: invoke_keeps_name)

lemma detach_Mounted: "detach r n = Mounted q \<longleftrightarrow> n = Mounted q"
  by (cases n) auto

lemma detach_idem:
  "detach r (detach r n) = detach r n"
  "detach_list r (detach_list r ns) = detach_list r ns"
  by (induction r n and r ns rule: detach_detach_list.induct) (auto simp: detach_Mounted)

lemma renderAndAttach_eq:
  "renderAndAttach (this, w) =
     (case document_querySelector ''selected-tag-subjects'' (document w) of
        None \<Rightarrow>
          (Inl TypeError, this,
           w\<lparr>heap := (heap w)(next_ref w :=
                  Element ''div'' [''selected-tag''] (parse_fragment (markup this w))),
             next_ref := Suc (next_ref w)\<rparr>)
      | Some p \<Rightarrow>
          (Inr (), this\<lparr>selectedTag := Some (next_ref w)\<rparr>,
           w\<lparr>heap := (heap w)(next_ref w :=
                  Element ''div'' [''selected-tag''] (parse_fragment (markup this w))),
             next_ref := Suc (next_ref w),
             document := modify_at p (map_children (\<lambda>ks. Mounted (next_ref w) # ks)) (document w)\<rparr>))"
  by (simp add: renderAndAttach_def createElement_def update_element_def set_innerHTML_def
      classList_add_def Let_def split: option.splits)

lemma parse_markup_head:
  "\<exists>rest. parse_fragment (markup this w) = status_span (allWorksTagged this) # rest"
proof (cases "allWorksTagged this")
  case True
  obtain rest0 where m: \<open>markup this w
      = ''<span class="selected-tag__status selected-tag__status--all-tagged"></span>'' @ rest0\<close>
    using True by (simp add: markup_def)
  have "\<exists>ns. parse_loop ([], [status_span True]) rest0 = rev [] @ status_span True # ns"
    unfolding status_span_def by (rule parse_loop_prefix [where ys = "[]"]) simp
  then show ?thesis
    unfolding parse_fragment_def m parse_status_all using True by (simp add: status_span_def)
next
  case False
  obtain rest0 where m: \<open>markup this w
      = ''<span class="selected-tag__status selected-tag__status--some-tagged"></span>'' @ rest0\<close>
    using False by (simp add: markup_def)
  have "\<exists>ns. parse_loop ([], [status_span False]) rest0 = rev [] @ status_span False # ns"
    unfolding status_span_def by (rule parse_loop_prefix [where ys = "[]"]) simp
  then show ?thesis
    unfolding parse_fragment_def m parse_status_some using False by (simp add: status_span_def)
qed

lemma render_rendered:
  assumes "renderAndAttach (this, w) = (Inr (), s1)"
  shows "\<exists>rest. rendered_as (next_ref w) [''selected-tag''] (allWorksTagged this) rest s1
           \<and> fst s1 = this\<lparr>selectedTag := Some (next_ref w)\<rparr>"
proof -
  obtain rest where "parse_fragment (markup this w) = status_span (allWorksTagged this) # rest"
    using parse_markup_head by blast
  then show ?thesis
    using assms by (auto simp: renderAndAttach_eq rendered_as_def split: option.splits)
qed

lemma first_child_query:
  "element_querySelector c (Element t cs (Element t' (c # cs') ks # rest)) = Some [0]"
  by (simp add: element_querySelector_def)

lemma update_rendered:
  assumes "rendered_as r cs b0 rest (this, w)"
  shows "updateAllWorksTagged b (this, w)
           = (Inr (), this\<lparr>allWorksTagged := b\<rparr>,
              w\<lparr>heap := (heap w)(r := Element ''div'' cs (status_span b # rest))\<rparr>)"
  using assms
  by (cases b; cases b0)
     (simp_all add: updateAllWorksTagged_def rendered_as_def first_child_query update_element_def
       status_span_def classList_add_def classList_remove_def)

lemma status_classes_rendered:
  "rendered_as r cs b rest s \<Longrightarrow>
     status_classes s = Some [''selected-tag__status'',
        if b then ''selected-tag__status--all-tagged'' else ''selected-tag__status--some-tagged'']"
  by (cases s)
     (simp add: rendered_as_def status_classes_def mounted_node_def first_child_query
       status_span_def)

lemma updates_rendered:
  assumes "rendered_as r cs b0 rest s" "allWorksTagged (fst s) = b0"
  shows "rendered_as r cs (last (b0 # bs)) rest (run (map UpdateAllWorksTagged bs) s)
         \<and> allWorksTagged (fst (run (map UpdateAllWorksTagged bs) s)) = last (b0 # bs)
         \<and> set (results (map UpdateAllWorksTagged bs) s) \<subseteq> {Inr ()}"
  using assms
proof (induction bs arbitrary: s b0)
  case Nil
  then show ?case by simp
next
  case (Cons b bs)
  obtain this w where s: "s = (this, w)" by (cases s)
  have u: "updateAllWorksTagged b s
      = (Inr (), this\<lparr>allWorksTagged := b\<rparr>,
         w\<lparr>heap := (heap w)(r := Element ''div'' cs (status_span b # rest))\<rparr>)"
    using update_rendered Cons.prems(1) s by simp
  have r: "rendered_as r cs b rest (snd (updateAllWorksTagged b s))"
    using Cons.prems(1) unfolding u by (simp add: rendered_as_def s)
  have a: "allWorksTagged (fst (snd (updateAllWorksTagged b s))) = b"
    by (simp add: u)
  show ?case using Cons.IH [OF r a] by (simp add: u)
qed

lemma example_container:
  "document_querySelector ''selected-tag-subjects'' (document example_page) = Some [0]"
  by (simp add: document_querySelector_def example_page_def)

lemma render_example_fst: "fst (renderAndAttach (this, example_page)) = Inr ()"
  by (simp add: renderAndAttach_eq example_container)

lemma render_example_ok:
  "renderAndAttach (this, example_page) = (Inr (), snd (renderAndAttach (this, example_page)))"
  using render_example_fst [of this] by (cases "renderAndAttach (this, example_page)") simp

lemma render_example_handle:
  "selectedTag (fst (snd (renderAndAttach (this, example_page)))) = Some 0"
  by (simp add: renderAndAttach_eq example_container, simp add: example_page_def)

lemma hidden_marker_rendered:
  "rendered_as r cs b rest s \<Longrightarrow> hidden_marker s = (''hidden'' \<in> set cs)"
  by (cases s) (simp add: rendered_as_def hidden_marker_def root_classes_def mounted_node_def)

lemma mounted_node_rendered:
  "rendered_as r cs b rest s \<Longrightarrow> mounted_node s = Some (Element ''div'' cs (status_span b # rest))"
  by (cases s) (simp add: rendered_as_def mounted_node_def)

lemma hide_rendered:
  assumes "rendered_as r cs b rest (this, w)"
  shows "hide (this, w)
           = (Inr (), this\<lparr>isVisible := False\<rparr>,
              w\<lparr>heap := (heap w)(r := Element ''div'' (classList_add ''hidden'' cs) (status_span b # rest))\<rparr>)"
  using assms by (simp add: hide_def rendered_as_def update_element_def)

lemma show_rendered:
  assumes "rendered_as r cs b rest (this, w)"
  shows "show_tag (this, w)
           = (Inr (), this\<lparr>isVisible := True\<rparr>,
              w\<lparr>heap := (heap w)(r := Element ''div'' (classList_remove ''hidden'' cs) (status_span b # rest))\<rparr>)"
  using assms by (simp add: show_tag_def rendered_as_def update_element_def)

lemma toggle_rendered:
  assumes "rendered_as r cs b rest (this, w)"
  shows "toggleVisibility (this, w)
           = (Inr (), this\<lparr>isVisible := \<not> isVisible this\<rparr>,
              w\<lparr>heap := (heap w)(r := Element ''div'' (classList_toggle ''hidden'' cs) (status_span b # rest))\<rparr>)"
  using assms by (simp add: toggleVisibility_def rendered_as_def update_element_def)

lemma remove_rendered:
  assumes "rendered_as r cs b rest (this, w)"
  shows "remove (this, w) = (Inr (), this, w\<lparr>document := detach r (document w)\<rparr>)"
  using assms by (simp add: remove_def rendered_as_def)

lemma hidden_add: "''hidden'' \<in> set (classList_add ''hidden'' cs)"
  by (simp add: classList_add_def)

lemma hidden_remove: "''hidden'' \<notin> set (classList_remove ''hidden'' cs)"
  by (simp add: classList_remove_def)

lemma hidden_toggle: "(''hidden'' \<in> set (classList_toggle ''hidden'' cs)) = (''hidden'' \<notin> set cs)"
  by (simp add: classList_toggle_def classList_remove_def)

lemma invoke_rendered:
  assumes r: "rendered_as r cs b rest s"
    and v: "isVisible (fst s) = (''hidden'' \<notin> set cs)"
    and c: "c \<noteq> RenderAndAttach"
  shows "\<exists>cs' b'. fst (invoke c s) = Inr ()
           \<and> rendered_as r cs' b' rest (snd (invoke c s))
           \<and> isVisible (fst (snd (invoke c s))) = (''hidden'' \<notin> set cs')"
proof -
  obtain this w where s: "s = (this, w)" by (cases s)
  note r' = r [unfolded s]
  show ?thesis
  proof (cases c)
    case RenderAndAttach
    then show ?thesis using c by simp
  next
    case Remove
    have "rendered_as r cs b rest (snd (invoke c s))"
      using r' by (simp add: Remove s remove_rendered [OF r'] rendered_as_def)
    then show ?thesis
      using v by (auto simp: Remove s remove_rendered [OF r'])
  next
    case (UpdateAllWorksTagged x)
    have "rendered_as r cs x rest (snd (invoke c s))"
      using r' by (simp add: UpdateAllWorksTagged s update_rendered [OF r'] rendered_as_def)
    then show ?thesis
      using v by (auto simp: UpdateAllWorksTagged s update_rendered [OF r'])
  next
    case Hide
    have "rendered_as r (classList_add ''hidden'' cs) b rest (snd (invoke c s))"
      using r' by (simp add: Hide s hide_rendered [OF r'] rendered_as_def)
    moreover have "isVisible (fst (snd (invoke c s))) = (''hidden'' \<notin> set (classList_add ''hidden'' cs))"
      by (simp add: Hide s hide_rendered [OF r'] hidden_add)
    ultimately show ?thesis
      by (auto simp: Hide s hide_rendered [OF r'])
  next
    case Show
    have "rendered_as r (classList_remove ''hidden'' cs) b rest (snd (invoke c s))"
      using r' by (simp add: Show s show_rendered [OF r'] rendered_as_def)
    moreover have "isVisible (fst (snd (invoke c s))) = (''hidden'' \<notin> set (classList_remove ''hidden'' cs))"
      by (simp add: Show s show_rendered [OF r'] hidden_remove)
    ultimately show ?thesis
      by (auto simp: Show s show_rendered [OF r'])
  next
    case ToggleVisibility
    have "rendered_as r (classList_toggle ''hidden'' cs) b rest (snd (invoke c s))"
      using r' by (simp add: ToggleVisibility s toggle_rendered [OF r'] rendered_as_def)
    moreover have "isVisible (fst (snd (invoke c s))) = (''hidden'' \<notin> set (classList_toggle ''hidden'' cs))"
      using v by (simp add: ToggleVisibility s toggle_rendered [OF r'] hidden_toggle)
    ultimately show ?thesis
      by (auto simp: ToggleVisibility s toggle_rendered [OF r'])
  qed
qed

lemma run_rendered:
  assumes "rendered_as r cs b rest s"
    and "isVisible (fst s) = (''hidden'' \<notin> set cs)"
    and "RenderAndAttach \<notin> set calls"
  shows "\<exists>cs' b'. set (results calls s) \<subseteq> {Inr ()}
           \<and> rendered_as r cs' b' rest (run calls s)
           \<and> isVisible (fst (run calls s)) = (''hidden'' \<notin> set cs')"
  using assms
proof (induction calls arbitrary: s cs b)
  case Nil
  then show ?case by auto
next
  case (Cons c calls)
  have c: "c \<noteq> RenderAndAttach" and calls: "RenderAndAttach \<notin> set calls"
    using Cons.prems(3) by auto
  obtain cs' b' where ok: "fst (invoke c s) = Inr ()"
    and r': "rendered_as r cs' b' rest (snd (invoke c s))"
    and v': "isVisible (fst (snd (invoke c s))) = (''hidden'' \<notin> set cs')"
    using invoke_rendered [OF Cons.prems(1) Cons.prems(2) c] by blast
  show ?case
    using Cons.IH [OF r' v' calls] ok by auto
qed

lemma render_visible:
  assumes "renderAndAttach (constructor t n a, w) = (Inr (), s1)"
  shows "\<exists>rest. rendered_as (next_ref w) [''selected-tag''] a rest s1 \<and> isVisible (fst s1)"
  using render_rendered [OF assms] by (auto simp: constructor_def)

lemma classList_add_idem: "classList_add x (classList_add x cs) = classList_add x cs"
  by (simp add: classList_add_def)

lemma classList_remove_idem: "classList_remove x (classList_remove x cs) = classList_remove x cs"
  by (simp add: classList_remove_def)

lemma classList_add_present: "x \<in> set cs \<Longrightarrow> classList_add x cs = cs"
  by (simp add: classList_add_def)

lemma classList_remove_absent: "x \<notin> set cs \<Longrightarrow> classList_remove x cs = cs"
  by (simp add: classList_remove_def)

lemma classList_remove_add: "''hidden'' \<notin> set (classList_remove ''hidden'' (classList_add ''hidden'' cs))"
  by (simp add: classList_remove_def)

lemma hide_show_rendered:
  assumes r: "rendered_as r cs b rest s"
  shows "fst (hide s) = Inr () \<and> hide (snd (hide s)) = hide s
    \<and> fst (show_tag s) = Inr () \<and> show_tag (snd (show_tag s)) = show_tag s
    \<and> (\<not> isVisible (fst s) \<and> hidden_marker s \<longrightarrow> hide s = (Inr (), s))
    \<and> (isVisible (fst s) \<and> \<not> hidden_marker s \<longrightarrow> show_tag s = (Inr (), s))
    \<and> \<not> isVisible (fst (run [Hide] s)) \<and> hidden_marker (run [Hide] s)
    \<and> isVisible (fst (run [Hide, Show] s)) \<and> \<not> hidden_marker (run [Hide, Show] s)"
proof -
  obtain this w where s: "s = (this, w)" by (cases s)
  note rs = r [unfolded s]
  have cell: "heap w r = Element ''div'' cs (status_span b # rest)"
    using rs by (simp add: rendered_as_def)
  have h1: "rendered_as r (classList_add ''hidden'' cs) b rest
      (this\<lparr>isVisible := False\<rparr>,
       w\<lparr>heap := (heap w)(r := Element ''div'' (classList_add ''hidden'' cs) (status_span b # rest))\<rparr>)"
    using rs by (simp add: rendered_as_def)
  have s1: "rendered_as r (classList_remove ''hidden'' cs) b rest
      (this\<lparr>isVisible := True\<rparr>,
       w\<lparr>heap := (heap w)(r := Element ''div'' (classList_remove ''hidden'' cs) (status_span b # rest))\<rparr>)"
    using rs by (simp add: rendered_as_def)
  have a: "fst (hide s) = Inr ()" "fst (show_tag s) = Inr ()"
    by (simp_all add: s hide_rendered [OF rs] show_rendered [OF rs])
  have b: "hide (snd (hide s)) = hide s"
    by (simp add: s hide_rendered [OF rs] hide_rendered [OF h1] classList_add_idem)
  have c: "show_tag (snd (show_tag s)) = show_tag s"
    by (simp add: s show_rendered [OF rs] show_rendered [OF s1] classList_remove_idem)
  have heq: "(heap w)(r := Element ''div'' cs (status_span b # rest)) = heap w"
    using cell by (simp add: fun_upd_idem)
  have d: "\<not> isVisible (fst s) \<and> hidden_marker s \<longrightarrow> hide s = (Inr (), s)"
    using heq
    by (auto simp: s hide_rendered [OF rs] hidden_marker_rendered [OF rs] classList_add_present)
  have e: "isVisible (fst s) \<and> \<not> hidden_marker s \<longrightarrow> show_tag s = (Inr (), s)"
    using heq
    by (auto simp: s show_rendered [OF rs] hidden_marker_rendered [OF rs] classList_remove_absent)
  have f: "\<not> isVisible (fst (run [Hide] s)) \<and> hidden_marker (run [Hide] s)"
    by (simp add: s hide_rendered [OF rs] hidden_marker_rendered [OF h1] hidden_add)
  have h2: "rendered_as r (classList_remove ''hidden'' (classList_add ''hidden'' cs)) b rest
      (run [Hide, Show] s)"
    using h1 by (simp add: s hide_rendered [OF rs] show_rendered [OF h1] rendered_as_def)
  have g1: "\<not> hidden_marker (run [Hide, Show] s)"
    by (simp only: hidden_marker_rendered [OF h2] classList_remove_add not_False_eq_True)
  have g2: "isVisible (fst (run [Hide, Show] s))"
    by (simp add: s hide_rendered [OF rs] show_rendered [OF h1])
  note g = conjI [OF g2 g1]
  show ?thesis using a b c d e f g by blast
qed

lemma attribute_value_safe:
  "attribute_safe v \<Longrightarrow> attribute_value (v @ CHR 0x22 # rest) = Some (v, rest)"
  by (induction v) (auto simp: attribute_safe_def)

lemma parse_start_tag:
  assumes "attribute_safe v"
  shows \<open>parse_loop (stk, cur) (''<span class="'' @ v @ ''">'' @ rest)
           = parse_loop ((class_tokens v, cur) # stk, []) rest\<close>
  using attribute_value_safe [OF assms, of "CHR ''>'' # rest"]
  by (simp add: next_token_def)

lemma parse_end_tag:
  "parse_loop ((cls, sibs) # stk, cur) (''</span>'' @ rest)
     = parse_loop (stk, Element ''span'' cls (rev cur) # sibs) rest"
  by (simp add: next_token_def)

lemma parse_plain_text:
  "plain_text s \<Longrightarrow> parse_loop (stk, cur) (s @ rest) = parse_loop (stk, fold append_char s cur) rest"
  by (induction s arbitrary: cur) (auto simp: plain_text_def next_token_def)

lemma fold_append_char_Text:
  "fold append_char s (Text x # ns) = Text (x @ s) # ns"
  by (induction s arbitrary: x) auto

lemma fold_append_char_Nil:
  "fold append_char s [] = (if s = [] then [] else [Text s])"
  by (cases s) (auto simp: fold_append_char_Text)

lemma fold_append_char_Element:
  "fold append_char (c # s) (Element t cs ks # ns) = Text (c # s) # Element t cs ks # ns"
  by (simp add: fold_append_char_Text)

lemma parse_gap:
  "parse_loop (stk, Element t cs ks # cur) (CHR 0x0A # ''            '' @ rest)
     = parse_loop (stk, template_gap # Element t cs ks # cur) rest"
proof -
  have p: "plain_text (CHR 0x0A # ''            '')" by (simp add: plain_text_def)
  show ?thesis
    using parse_plain_text [OF p, of stk "Element t cs ks # cur" rest]
    by (simp add: template_gap_def)
qed

lemma status_tokens:
  "class_tokens (''selected-tag__status selected-tag__status--'' @ (if a then ''all-tagged'' else ''some-tagged''))
     = [''selected-tag__status'',
        if a then ''selected-tag__status--all-tagged'' else ''selected-tag__status--some-tagged'']"
  by (simp add: class_tokens_def classList_add_def is_ascii_whitespace_def)

lemma markup_split:
  \<open>markup this w =
     ''<span class="'' @ (''selected-tag__status selected-tag__status--''
          @ (if allWorksTagged this then ''all-tagged'' else ''some-tagged'')) @ ''">''
     @ ''</span>'' @ (CHR 0x0A # ''            ''
     @ ''<span class="'' @ (''selected-tag__type selected-tag__type'' @ suffix_text w (tagType this)) @ ''">''
     @ ''</span>'' @ (CHR 0x0A # ''            ''
     @ ''<span class="'' @ ''selected-tag__name'' @ ''">'' @ (tagName this @ ''</span>'')))\<close>
  by (simp add: markup_def)

lemma parse_template:
  assumes "attribute_safe (suffix_text w (tagType this))"
  shows "parse_fragment (markup this w)
           = parse_loop
               ([([''selected-tag__name''],
                  [template_gap, type_span (suffix_text w (tagType this)), template_gap,
                   status_span (allWorksTagged this)])], [])
               (tagName this @ ''</span>'')"
proof -
  have s1: "attribute_safe (''selected-tag__status selected-tag__status--''
          @ (if allWorksTagged this then ''all-tagged'' else ''some-tagged''))"
    by (simp add: attribute_safe_def)
  have s2: "attribute_safe (''selected-tag__type selected-tag__type'' @ suffix_text w (tagType this))"
    using assms by (simp add: attribute_safe_def)
  have s3: "attribute_safe ''selected-tag__name''"
    by (simp add: attribute_safe_def)
  have n: "class_tokens ''selected-tag__name'' = [''selected-tag__name'']"
    by (simp add: class_tokens_def classList_add_def is_ascii_whitespace_def)
  show ?thesis
    unfolding parse_fragment_def markup_split
    unfolding parse_start_tag [OF s1] parse_end_tag status_tokens rev.simps append_Nil
    unfolding parse_gap
    unfolding parse_start_tag [OF s2] parse_end_tag rev.simps append_Nil
    unfolding parse_gap
    unfolding parse_start_tag [OF s3] n
    by (simp add: status_span_def type_span_def)
qed

lemma parse_template_prefix:
  assumes "attribute_safe (suffix_text w (tagType this))"
  shows "\<exists>ns. parse_fragment (markup this w)
           = status_span (allWorksTagged this) # template_gap
             # type_span (suffix_text w (tagType this)) # ns"
proof -
  have "\<exists>ns. parse_loop
               ([([''selected-tag__name''],
                  [template_gap, type_span (suffix_text w (tagType this)), template_gap,
                   status_span (allWorksTagged this)])], [])
               (tagName this @ ''</span>'')
          = rev [template_gap, status_span (allWorksTagged this)]
            @ Element ''span'' (class_tokens (''selected-tag__type selected-tag__type'' @ suffix_text w (tagType this))) []
            # ns"
    by (rule parse_loop_prefix [where ys = "[template_gap]"]) (simp add: type_span_def)
  then show ?thesis
    unfolding parse_template [OF assms] by (simp add: type_span_def)
qed

lemma parse_template_plain:
  assumes "attribute_safe (suffix_text w (tagType this))" and "plain_text (tagName this)"
  shows "parse_fragment (markup this w)
           = [status_span (allWorksTagged this), template_gap,
              type_span (suffix_text w (tagType this)), template_gap,
              Element ''span'' [''selected-tag__name'']
                (if tagName this = [] then [] else [Text (tagName this)])]"
  unfolding parse_template [OF assms(1)] parse_plain_text [OF assms(2)] fold_append_char_Nil
  by (simp add: next_token_def)

lemma undefined_tokens:
  "class_tokens (''selected-tag__type selected-tag__type'' @ ''undefined'')
     = [''selected-tag__type'', ''selected-tag__typeundefined'']"
  by (simp add: class_tokens_def classList_add_def is_ascii_whitespace_def)

lemma type_query:
  "element_querySelector ''selected-tag__type''
     (Element t cs (status_span a # template_gap # Element t' (''selected-tag__type'' # cs') ks # ns))
     = Some [2]"
  by (simp add: element_querySelector_def status_span_def template_gap_def numeral_2_eq_2)

lemma invoke_handle:
  "(selectedTag (fst (snd (invoke c s))) \<noteq> None)
     = (selectedTag (fst s) \<noteq> None \<or> (c = RenderAndAttach \<and> fst (invoke c s) = Inr ()))"
  by (cases c; cases s)
     (auto simp: renderAndAttach_eq remove_def updateAllWorksTagged_def hide_def show_tag_def
        toggleVisibility_def Let_def split: option.splits)

lemma run_handle:
  "(selectedTag (fst (run calls s)) \<noteq> None)
     = (selectedTag (fst s) \<noteq> None
        \<or> (RenderAndAttach, Inr ()) \<in> set (zip calls (results calls s)))"
proof (induction calls arbitrary: s)
  case Nil
  then show ?case by simp
next
  case (Cons c calls)
  show ?case
    unfolding run.simps results.simps zip_Cons_Cons set_simps Cons.IH invoke_handle
    by auto
qed

lemma remove_handle: "selectedTag (fst (snd (remove s))) = selectedTag (fst s)"
  by (cases s) (simp add: remove_def split: option.splits)

lemma mounted_detach:
  "n \<noteq> Mounted r \<Longrightarrow> r \<notin> set (mounted (detach r n))"
  "r \<notin> set (mounted_list (detach_list r ns))"
  by (induction r n and r ns rule: detach_detach_list.induct) auto

lemma example_render_document:
  "document (snd (snd (renderAndAttach (this, example_page))))
     = Element ''body'' []
         [Element ''div'' [''selected-tag-subjects'']
            [Mounted 0, Element ''h3'' [] [Text ''Subjects'']]]"
  by (simp add: renderAndAttach_eq example_container, simp add: example_page_def)

lemma render_undefined_type:
  assumes "classTypeSuffixes t = None" and "objectPrototype w t = None"
    and "renderAndAttach (constructor t n a, w) = (Inr (), s1)"
  shows "type_classes s1 = Some [''selected-tag__type'', ''selected-tag__typeundefined'']
    \<and> (\<exists>ns. mounted_node s1
          = Some (Element ''div'' [''selected-tag'']
               (status_span a # template_gap
                # Element ''span'' [''selected-tag__type'', ''selected-tag__typeundefined''] []
                # ns)))"
proof -
  have sfx: "suffix_text w (tagType (constructor t n a)) = ''undefined''"
    using assms(1,2) by (simp add: suffix_text_def constructor_def)
  have safe: "attribute_safe (suffix_text w (tagType (constructor t n a)))"
    by (simp add: sfx attribute_safe_def)
  obtain ns where p: "parse_fragment (markup (constructor t n a) w)
      = status_span a # template_gap
        # Element ''span'' [''selected-tag__type'', ''selected-tag__typeundefined''] [] # ns"
    using parse_template_prefix [OF safe]
    unfolding sfx type_span_def undefined_tokens by (auto simp: constructor_def)
  have m: "mounted_node s1
          = Some (Element ''div'' [''selected-tag'']
               (status_span a # template_gap
                # Element ''span'' [''selected-tag__type'', ''selected-tag__typeundefined''] []
                # ns))"
    using assms(3) by (auto simp: renderAndAttach_eq mounted_node_def p split: option.splits)
  have "type_classes s1 = Some [''selected-tag__type'', ''selected-tag__typeundefined'']"
    by (simp add: type_classes_def m type_query numeral_2_eq_2)
  then show ?thesis using m by blast
qed

lemma authors_unrecognized:
  "classTypeSuffixes ''authors'' = None" "objectPrototype example_page ''authors'' = None"
  by (simp_all add: classTypeSuffixes_def example_page_def)

lemma subject_suffix: "suffix_text w ''subjects'' = ''--subject''"
  by (simp add: suffix_text_def classTypeSuffixes_def)

lemma name_query:
  "''selected-tag__name'' \<notin> set cs' \<Longrightarrow>
   element_querySelector ''selected-tag__name''
     (Element t cs (status_span a # template_gap # Element t' cs' [] # template_gap
        # Element t'' [''selected-tag__name''] ks # ns))
     = Some [4]"
  by (simp add: element_querySelector_def status_span_def template_gap_def eval_nat_numeral)

lemma amp_label:
  "parse_fragment (markup (constructor ''subjects'' ''Research &amp; Development'' False) w)
     = [status_span False, template_gap, type_span ''--subject'', template_gap,
        Element ''span'' [''selected-tag__name''] [Text ''Research & Development'']]"
proof -
  have safe: "attribute_safe (suffix_text w (tagType (constructor ''subjects'' ''Research &amp; Development'' False)))"
    by (simp add: constructor_def subject_suffix attribute_safe_def)
  show ?thesis
    unfolding parse_template [OF safe]
    by (simp add: constructor_def subject_suffix next_token_def opens_reference_def
        opens_markup_def is_ascii_alpha_def is_ascii_digit_def)
qed

lemma subject_tokens:
  "class_tokens ''selected-tag__type selected-tag__type--subject''
     = [''selected-tag__type'', ''selected-tag__type--subject'']"
  by (simp add: class_tokens_def classList_add_def is_ascii_whitespace_def)

lemma invoke_keeps_status:
  assumes r: "rendered_as r cs (allWorksTagged (fst s)) rest s" and n: "r < next_ref (snd s)"
  shows "\<exists>r' cs' rest'.
           rendered_as r' cs' (allWorksTagged (fst (snd (invoke c s)))) rest' (snd (invoke c s))
           \<and> r' < next_ref (snd (snd (invoke c s)))"
proof -
  obtain this w where s: "s = (this, w)" by (cases s)
  have r': "rendered_as r cs (allWorksTagged this) rest (this, w)" using r s by simp
  have n': "r < next_ref w" using n s by simp
  show ?thesis
  proof (cases c)
    case RenderAndAttach
    obtain rest' where p: "parse_fragment (markup this w) = status_span (allWorksTagged this) # rest'"
      using parse_markup_head by blast
    show ?thesis
    proof (cases "document_querySelector ''selected-tag-subjects'' (document w)")
      case None
      have "rendered_as r cs (allWorksTagged (fst (snd (invoke c s)))) rest (snd (invoke c s))"
        using r' n' by (simp add: RenderAndAttach s renderAndAttach_eq None rendered_as_def)
      moreover have "r < next_ref (snd (snd (invoke c s)))"
        using n' by (simp add: RenderAndAttach s renderAndAttach_eq None)
      ultimately show ?thesis by blast
    next
      case (Some q)
      have "rendered_as (next_ref w) [''selected-tag''] (allWorksTagged (fst (snd (invoke c s))))
              rest' (snd (invoke c s))"
        by (simp add: RenderAndAttach s renderAndAttach_eq Some rendered_as_def p)
      moreover have "next_ref w < next_ref (snd (snd (invoke c s)))"
        by (simp add: RenderAndAttach s renderAndAttach_eq Some)
      ultimately show ?thesis by blast
    qed
  next
    case Remove
    have "rendered_as r cs (allWorksTagged (fst (snd (invoke c s)))) rest (snd (invoke c s))"
      using r' by (simp add: Remove s remove_rendered [OF r'] rendered_as_def)
    moreover have "r < next_ref (snd (snd (invoke c s)))"
      using n' by (simp add: Remove s remove_rendered [OF r'])
    ultimately show ?thesis by blast
  next
    case (UpdateAllWorksTagged x)
    have "rendered_as r cs (allWorksTagged (fst (snd (invoke c s)))) rest (snd (invoke c s))"
      using r' by (simp add: UpdateAllWorksTagged s update_rendered [OF r'] rendered_as_def)
    moreover have "r < next_ref (snd (snd (invoke c s)))"
      using n' by (simp add: UpdateAllWorksTagged s update_rendered [OF r'])
    ultimately show ?thesis by blast
  next
    case Hide
    have "rendered_as r (classList_add ''hidden'' cs) (allWorksTagged (fst (snd (invoke c s))))
            rest (snd (invoke c s))"
      using r' by (simp add: Hide s hide_rendered [OF r'] rendered_as_def)
    moreover have "r < next_ref (snd (snd (invoke c s)))"
      using n' by (simp add: Hide s hide_rendered [OF r'])
    ultimately show ?thesis by blast
  next
    case Show
    have "rendered_as r (classList_remove ''hidden'' cs) (allWorksTagged (fst (snd (invoke c s))))
            rest (snd (invoke c s))"
      using r' by (simp add: Show s show_rendered [OF r'] rendered_as_def)
    moreover have "r < next_ref (snd (snd (invoke c s)))"
      using n' by (simp add: Show s show_rendered [OF r'])
    ultimately show ?thesis by blast
  next
    case ToggleVisibility
    have "rendered_as r (classList_toggle ''hidden'' cs) (allWorksTagged (fst (snd (invoke c s))))
            rest (snd (invoke c s))"
      using r' by (simp add: ToggleVisibility s toggle_rendered [OF r'] rendered_as_def)
    moreover have "r < next_ref (snd (snd (invoke c s)))"
      using n' by (simp add: ToggleVisibility s toggle_rendered [OF r'])
    ultimately show ?thesis by blast
  qed
qed

lemma run_keeps_status:
  assumes "rendered_as r cs (allWorksTagged (fst s)) rest s" and "r < next_ref (snd s)"
  shows "\<exists>r' cs' rest'.
           rendered_as r' cs' (allWorksTagged (fst (run calls s))) rest' (run calls s)
           \<and> r' < next_ref (snd (run calls s))"
  using assms
proof (induction calls arbitrary: s r cs rest)
  case Nil
  then show ?case by auto
next
  case (Cons c calls)
  obtain r' cs' rest'
    where "rendered_as r' cs' (allWorksTagged (fst (snd (invoke c s)))) rest' (snd (invoke c s))"
      and "r' < next_ref (snd (snd (invoke c s)))"
    using invoke_keeps_status [OF Cons.prems] by blast
  then show ?case using Cons.IH by simp
qed

lemma render_next_ref:
  assumes "renderAndAttach (this, w) = (Inr (), s1)"
  shows "next_ref (snd s1) = Suc (next_ref w)"
  using assms by (auto simp: renderAndAttach_eq split: option.splits)

section \<open>Further properties of renderAndAttach\<close>

text \<open>
  With one of the four tag types and a tag name of plain text, the node is the one the
  template describes: the status element, the category element with the class of the
  type, and the label whose one child is the text of the name.
\<close>

lemma suffix_cases:
  "classTypeSuffixes t = Some sfx \<Longrightarrow>
     sfx = ''--subject'' \<or> sfx = ''--person'' \<or> sfx = ''--place'' \<or> sfx = ''--time''"
  by (auto simp: classTypeSuffixes_def split: if_splits)

lemma suffix_tokens:
  assumes "classTypeSuffixes t = Some sfx"
  shows "attribute_safe sfx
    \<and> class_tokens (''selected-tag__type selected-tag__type'' @ sfx)
        = [''selected-tag__type'', ''selected-tag__type'' @ sfx]"
  using suffix_cases [OF assms]
  by (auto simp: attribute_safe_def class_tokens_def classList_add_def is_ascii_whitespace_def)

lemma label_query:
  "''selected-tag__name'' \<notin> set cs' \<Longrightarrow>
   element_querySelector ''selected-tag__name''
     (Element t cs [status_span a, template_gap, Element t' cs' [], template_gap,
        Element t'' [''selected-tag__name''] ks])
     = Some [4]"
  by (simp add: element_querySelector_def status_span_def template_gap_def eval_nat_numeral)

lemma render_of_recognized_type_and_plain_name:
  assumes "classTypeSuffixes t = Some sfx" and "plain_text n"
    and "renderAndAttach (constructor t n a, w) = (Inr (), s1)"
  shows "mounted_node s1
      = Some (Element ''div'' [''selected-tag'']
          [status_span a, template_gap,
           Element ''span'' [''selected-tag__type'', ''selected-tag__type'' @ sfx] [],
           template_gap,
           Element ''span'' [''selected-tag__name''] (if n = [] then [] else [Text n])])
    \<and> status_classes s1
        = Some [''selected-tag__status'',
                if a then ''selected-tag__status--all-tagged''
                else ''selected-tag__status--some-tagged'']
    \<and> type_classes s1 = Some [''selected-tag__type'', ''selected-tag__type'' @ sfx]
    \<and> label_children s1 = Some (if n = [] then [] else [Text n])"
proof -
  have sfx: "suffix_text w (tagType (constructor t n a)) = sfx"
    using assms(1) by (simp add: suffix_text_def constructor_def)
  note tk = suffix_tokens [OF assms(1)]
  have safe: "attribute_safe (suffix_text w (tagType (constructor t n a)))"
    using tk by (simp add: sfx)
  have plain: "plain_text (tagName (constructor t n a))"
    using assms(2) by (simp add: constructor_def)
  have p: "parse_fragment (markup (constructor t n a) w)
      = [status_span a, template_gap,
         Element ''span'' [''selected-tag__type'', ''selected-tag__type'' @ sfx] [],
         template_gap,
         Element ''span'' [''selected-tag__name''] (if n = [] then [] else [Text n])]"
    unfolding parse_template_plain [OF safe plain] sfx type_span_def
    using tk by (simp add: constructor_def)
  have m: "mounted_node s1
      = Some (Element ''div'' [''selected-tag'']
          [status_span a, template_gap,
           Element ''span'' [''selected-tag__type'', ''selected-tag__type'' @ sfx] [],
           template_gap,
           Element ''span'' [''selected-tag__name''] (if n = [] then [] else [Text n])])"
    using assms(3) by (auto simp: renderAndAttach_eq mounted_node_def p split: option.splits)
  have nm: "''selected-tag__name'' \<notin> set [''selected-tag__type'', ''selected-tag__type'' @ sfx]"
    using suffix_cases [OF assms(1)] by auto
  have st: "status_classes s1
        = Some [''selected-tag__status'',
                if a then ''selected-tag__status--all-tagged''
                else ''selected-tag__status--some-tagged'']"
    unfolding status_classes_def m
    by (simp add: first_child_query status_span_def)
  have ty: "type_classes s1 = Some [''selected-tag__type'', ''selected-tag__type'' @ sfx]"
    unfolding type_classes_def m
    by (simp add: type_query eval_nat_numeral)
  have lb: "label_children s1 = Some (if n = [] then [] else [Text n])"
    unfolding label_children_def m option.case label_query [OF nm]
    by (simp add: eval_nat_numeral)
  show ?thesis using m st ty lb by blast
qed

text \<open>
  A completed \<^verbatim>\<open>renderAndAttach()\<close> puts the new element in front of the children of
  the first element of class \<^verbatim>\<open>selected-tag-subjects\<close>; on a page that does not hold
  the new address yet, it is then mounted once. Without such an element the call throws
  and leaves the instance and the document as they were.
\<close>

lemma query_finds_class:
  "query_node cls n = Some p \<Longrightarrow>
     \<exists>t cs ks. node_at p n = Some (Element t cs ks) \<and> cls \<in> set cs"
  "query_list cls i ns = Some p \<Longrightarrow>
     \<exists>j q t cs ks. p = (i + j) # q \<and> j < length ns
        \<and> node_at q (ns ! j) = Some (Element t cs ks) \<and> cls \<in> set cs"
proof (induction cls n and cls i ns arbitrary: p and p rule: query_node_query_list.induct)
  case (1 cls t cs ks)
  show ?case
  proof (cases "cls \<in> set cs")
    case True
    then show ?thesis using "1.prems" by simp
  next
    case False
    then have "query_list cls 0 ks = Some p" using "1.prems" by simp
    then obtain j q t' cs' ks' where "p = (0 + j) # q" "j < length ks"
      "node_at q (ks ! j) = Some (Element t' cs' ks')" "cls \<in> set cs'"
      using "1.IH" [OF False] by blast
    then show ?thesis by simp
  qed
next
  case (6 cls i n ns)
  show ?case
  proof (cases "query_node cls n")
    case None
    then have "query_list cls (Suc i) ns = Some p" using "6.prems" by simp
    then obtain j q t cs ks where "p = (Suc i + j) # q" "j < length ns"
      "node_at q (ns ! j) = Some (Element t cs ks)" "cls \<in> set cs"
      using "6.IH"(2) [OF None] by blast
    then have "p = (i + Suc j) # q \<and> Suc j < length (n # ns)
        \<and> node_at q ((n # ns) ! Suc j) = Some (Element t cs ks) \<and> cls \<in> set cs"
      by simp
    then show ?thesis by blast
  next
    case (Some q)
    then have p: "p = i # q" using "6.prems" by simp
    obtain t cs ks where "node_at q n = Some (Element t cs ks)" "cls \<in> set cs"
      using "6.IH"(1) [OF Some] by blast
    then have "p = (i + 0) # q \<and> 0 < length (n # ns)
        \<and> node_at q ((n # ns) ! 0) = Some (Element t cs ks) \<and> cls \<in> set cs"
      using p by simp
    then show ?thesis by blast
  qed
qed simp_all

lemma children_nonempty: "i < length (children n) \<Longrightarrow> \<exists>t cs ks. n = Element t cs ks"
  by (cases n) auto

lemma node_at_modify_at:
  "node_at p (modify_at p f n) = map_option f (node_at p n)"
proof (induction p arbitrary: n)
  case Nil
  then show ?case by simp
next
  case (Cons i p)
  show ?case
  proof (cases "i < length (children n)")
    case True
    then obtain t cs ks where n: "n = Element t cs ks" using children_nonempty by blast
    then show ?thesis using True Cons.IH by simp
  next
    case False
    then show ?thesis by simp
  qed
qed

lemma query_list_update:
  "i < length ks \<Longrightarrow> query_node cls x = query_node cls (ks ! i) \<Longrightarrow>
     query_list cls j (ks[i := x]) = query_list cls j ks"
proof (induction ks arbitrary: i j)
  case Nil
  then show ?case by simp
next
  case (Cons k ks)
  show ?case
  proof (cases i)
    case 0
    then show ?thesis using Cons.prems by simp
  next
    case (Suc i')
    have "query_list cls (Suc j) (ks[i' := x]) = query_list cls (Suc j) ks"
      using Cons.IH [of i' "Suc j"] Cons.prems Suc by simp
    then show ?thesis using Suc by (simp split: option.splits)
  qed
qed

lemma query_modify_at:
  "node_at p n = Some e \<Longrightarrow> query_node cls (f e) = query_node cls e \<Longrightarrow>
     query_node cls (modify_at p f n) = query_node cls n"
proof (induction p arbitrary: n)
  case Nil
  then show ?case by simp
next
  case (Cons i p)
  have i: "i < length (children n)" using Cons.prems(1) by (simp split: if_splits)
  then obtain t cs ks where n: "n = Element t cs ks" using children_nonempty by blast
  have "node_at p (ks ! i) = Some e" using Cons.prems(1) i n by simp
  then have "query_node cls (modify_at p f (ks ! i)) = query_node cls (ks ! i)"
    using Cons.IH Cons.prems(2) by blast
  then show ?case using i n by (simp add: query_list_update)
qed

lemma count_mounted_list_update:
  "i < length ks \<Longrightarrow>
     count_list (mounted_list (ks[i := x])) r + count_list (mounted (ks ! i)) r
       = count_list (mounted_list ks) r + count_list (mounted x) r"
proof (induction ks arbitrary: i)
  case Nil
  then show ?case by simp
next
  case (Cons k ks)
  then show ?case by (cases i) (auto simp: add.assoc add.left_commute)
qed

lemma count_mounted_modify_at:
  "node_at p n = Some (Element t cs ks) \<Longrightarrow>
     count_list (mounted (modify_at p (map_children (\<lambda>ks. Mounted r # ks)) n)) x
       = count_list (mounted n) x + (if x = r then 1 else 0)"
proof (induction p arbitrary: n)
  case Nil
  then show ?case by simp
next
  case (Cons i p)
  have i: "i < length (children n)" using Cons.prems by (simp split: if_splits)
  then obtain t' cs' ks' where n: "n = Element t' cs' ks'" using children_nonempty by blast
  have at: "node_at p (ks' ! i) = Some (Element t cs ks)" using Cons.prems i n by simp
  have il: "i < length ks'" using i n by simp
  show ?case
    using count_mounted_list_update [OF il, of "modify_at p (map_children (\<lambda>ks. Mounted r # ks)) (ks' ! i)" x]
      Cons.IH [OF at] n il
    by simp
qed

lemma render_prepends_node_to_container:
  assumes "renderAndAttach (this, w) = (Inr (), s1)"
    and "next_ref w \<notin> set (mounted (document w))"
  shows "\<exists>p t cs ks.
      document_querySelector ''selected-tag-subjects'' (document w) = Some p
      \<and> node_at p (document w) = Some (Element t cs ks)
      \<and> ''selected-tag-subjects'' \<in> set cs
      \<and> selectedTag (fst s1) = Some (next_ref w)
      \<and> document_querySelector ''selected-tag-subjects'' (document (snd s1)) = Some p
      \<and> node_at p (document (snd s1)) = Some (Element t cs (Mounted (next_ref w) # ks))
      \<and> count_list (mounted (document (snd s1))) (next_ref w) = 1"
proof -
  obtain p where q: "document_querySelector ''selected-tag-subjects'' (document w) = Some p"
    using assms(1) by (auto simp: renderAndAttach_eq split: option.splits)
  obtain t cs ks where at: "node_at p (document w) = Some (Element t cs ks)"
    and c: "''selected-tag-subjects'' \<in> set cs"
    using query_finds_class(1) q unfolding document_querySelector_def by blast
  have d: "document (snd s1)
      = modify_at p (map_children (\<lambda>ks. Mounted (next_ref w) # ks)) (document w)"
    and h: "selectedTag (fst s1) = Some (next_ref w)"
    using assms(1) q by (auto simp: renderAndAttach_eq)
  have at1: "node_at p (document (snd s1)) = Some (Element t cs (Mounted (next_ref w) # ks))"
    unfolding d node_at_modify_at at by simp
  have same: "query_node ''selected-tag-subjects''
        (map_children (\<lambda>ks. Mounted (next_ref w) # ks) (Element t cs ks))
      = query_node ''selected-tag-subjects'' (Element t cs ks)"
    using c by simp
  have q1: "document_querySelector ''selected-tag-subjects'' (document (snd s1)) = Some p"
    unfolding d document_querySelector_def
      query_modify_at [where f = "map_children (\<lambda>ks. Mounted (next_ref w) # ks)", OF at same]
    using q by (simp add: document_querySelector_def)
  have "count_list (mounted (document w)) (next_ref w) = 0"
    using assms(2) by (simp add: count_list_0_iff)
  then have n: "count_list (mounted (document (snd s1))) (next_ref w) = 1"
    unfolding d count_mounted_modify_at [OF at] by simp
  show ?thesis using q at c h q1 at1 n by blast
qed

lemma render_without_container_throws:
  assumes "document_querySelector ''selected-tag-subjects'' (document w) = None"
  shows "fst (renderAndAttach (this, w)) = Inl TypeError
    \<and> fst (snd (renderAndAttach (this, w))) = this
    \<and> document (snd (snd (renderAndAttach (this, w)))) = document w"
  using assms by (simp add: renderAndAttach_eq)

section \<open>The claims\<close>

text \<open>
  C1. After \<^verbatim>\<open>renderAndAttach()\<close> on a constructed instance, every call of a
  sequence of \<^verbatim>\<open>updateAllWorksTagged(b)\<close> calls completes; after the last one the
  field and the status marker are those of its argument (of the constructor's
  \<open>allWorksTagged\<close> for the empty sequence): the status element carries the all-tagged
  class exactly when that value is true and the some-tagged class exactly when it is
  false, so one of the two and never both. Every prefix of a sequence is a sequence,
  so this holds after each call. After any calls of any methods of the instance, the
  status element still carries exactly the one of the two classes that the field
  \<open>allWorksTagged\<close> names.
\<close>

theorem C1_status_marker_follows_last_update:
  assumes "renderAndAttach (constructor t n a, w) = (Inr (), s1)"
  shows "set (results (map UpdateAllWorksTagged bs) s1) \<subseteq> {Inr ()}
    \<and> allWorksTagged (fst (run (map UpdateAllWorksTagged bs) s1)) = last (a # bs)
    \<and> status_classes (run (map UpdateAllWorksTagged bs) s1)
        = Some [''selected-tag__status'',
                if last (a # bs) then ''selected-tag__status--all-tagged''
                else ''selected-tag__status--some-tagged'']
    \<and> (\<exists>cs. status_classes (run (map UpdateAllWorksTagged bs) s1) = Some cs
          \<and> (''selected-tag__status--all-tagged'' \<in> set cs) = last (a # bs)
          \<and> (''selected-tag__status--some-tagged'' \<in> set cs) = (\<not> last (a # bs)))
    \<and> (\<exists>cs. status_classes (run calls s1) = Some cs
          \<and> (''selected-tag__status--all-tagged'' \<in> set cs)
               = allWorksTagged (fst (run calls s1))
          \<and> (''selected-tag__status--some-tagged'' \<in> set cs)
               = (\<not> allWorksTagged (fst (run calls s1))))"
proof -
  obtain rest where r: "rendered_as (next_ref w) [''selected-tag''] a rest s1"
    and f: "fst s1 = (constructor t n a)\<lparr>selectedTag := Some (next_ref w)\<rparr>"
    using render_rendered [OF assms] by (auto simp: constructor_def)
  have a: "allWorksTagged (fst s1) = a" by (simp add: f constructor_def)
  note u = updates_rendered [OF r a, of bs]
  have sc: "status_classes (run (map UpdateAllWorksTagged bs) s1)
        = Some [''selected-tag__status'',
                if last (a # bs) then ''selected-tag__status--all-tagged''
                else ''selected-tag__status--some-tagged'']"
    using u status_classes_rendered by blast
  have r0: "rendered_as (next_ref w) [''selected-tag''] (allWorksTagged (fst s1)) rest s1"
    using r a by simp
  have n0: "next_ref w < next_ref (snd s1)"
    using render_next_ref [OF assms] by simp
  obtain r' cs' rest'
    where "rendered_as r' cs' (allWorksTagged (fst (run calls s1))) rest' (run calls s1)"
    using run_keeps_status [OF r0 n0] by blast
  then have any: "status_classes (run calls s1)
        = Some [''selected-tag__status'',
                if allWorksTagged (fst (run calls s1)) then ''selected-tag__status--all-tagged''
                else ''selected-tag__status--some-tagged'']"
    by (rule status_classes_rendered)
  have anyc: "\<exists>cs. status_classes (run calls s1) = Some cs
          \<and> (''selected-tag__status--all-tagged'' \<in> set cs)
               = allWorksTagged (fst (run calls s1))
          \<and> (''selected-tag__status--some-tagged'' \<in> set cs)
               = (\<not> allWorksTagged (fst (run calls s1)))"
    unfolding any by simp
  have upd: "\<exists>cs. status_classes (run (map UpdateAllWorksTagged bs) s1) = Some cs
          \<and> (''selected-tag__status--all-tagged'' \<in> set cs) = last (a # bs)
          \<and> (''selected-tag__status--some-tagged'' \<in> set cs) = (\<not> last (a # bs))"
    unfolding sc by simp
  show ?thesis using u sc upd anyc by blast
qed

theorem C1_status_marker_follows_last_update_witness:
  "fst (renderAndAttach (fantasy, example_page)) = Inr ()
   \<and> status_classes (snd (renderAndAttach (fantasy, example_page)))
       = Some [''selected-tag__status'', ''selected-tag__status--some-tagged'']
   \<and> status_classes (run [UpdateAllWorksTagged True] (snd (renderAndAttach (fantasy, example_page))))
       = Some [''selected-tag__status'', ''selected-tag__status--all-tagged'']
   \<and> status_classes
         (run [UpdateAllWorksTagged True, UpdateAllWorksTagged False]
            (snd (renderAndAttach (fantasy, example_page))))
       = Some [''selected-tag__status'', ''selected-tag__status--some-tagged'']"
proof -
  have h: "renderAndAttach (constructor ''subjects'' ''Fantasy'' False, example_page)
             = (Inr (), snd (renderAndAttach (fantasy, example_page)))"
    using render_example_ok [of fantasy] by (simp add: fantasy_def)
  show ?thesis
    using C1_status_marker_follows_last_update [OF h, of "[]"]
      C1_status_marker_follows_last_update [OF h, of "[True]"]
      C1_status_marker_follows_last_update [OF h, of "[True, False]"]
      render_example_fst [of fantasy]
    by (simp add: fantasy_def)
qed

text \<open>
  C2. The text label does not show every tag name verbatim: the template puts the name
  into the markup unescaped, and \<^verbatim>\<open>innerHTML\<close> parses it. For the tag name
  \<^verbatim>\<open>Research &amp; Development\<close> the call completes, the field still holds the name,
  and the one child of the label is the text \<^verbatim>\<open>Research & Development\<close>.
\<close>

theorem C2_label_not_verbatim:
  "fst (renderAndAttach (constructor ''subjects'' ''Research &amp; Development'' False, example_page)) = Inr ()
   \<and> tagName (fst (snd (renderAndAttach
         (constructor ''subjects'' ''Research &amp; Development'' False, example_page))))
       = ''Research &amp; Development''
   \<and> label_children (snd (renderAndAttach
         (constructor ''subjects'' ''Research &amp; Development'' False, example_page)))
       = Some [Text ''Research & Development'']"
proof -
  have n: "tagName (fst (snd (renderAndAttach
         (constructor ''subjects'' ''Research &amp; Development'' False, example_page))))
       = ''Research &amp; Development''"
    using invoke_keeps_name [of RenderAndAttach "(constructor ''subjects'' ''Research &amp; Development'' False, example_page)"]
    by (simp add: constructor_def)
  have l: "label_children (snd (renderAndAttach
         (constructor ''subjects'' ''Research &amp; Development'' False, example_page)))
       = Some [Text ''Research & Development'']"
    by (simp add: renderAndAttach_eq example_container label_children_def mounted_node_def
        amp_label type_span_def subject_tokens name_query eval_nat_numeral)
  show ?thesis using render_example_fst n l by blast
qed

text \<open>
  C3. On a constructed instance, after any calls of its methods,
  \<^verbatim>\<open>tagNameStartsWith(s)\<close> is true exactly when the lower-cased search string is a
  prefix of the lower-cased tag name the constructor was given; it is true for the
  empty string and for the tag name itself. The method is a function of the instance
  and the string to a truth value: it has a value for every string and returns no
  changed instance.
\<close>

theorem C3_tagNameStartsWith:
  "tagNameStartsWith (fst (run cs (constructor t n a, w))) s
     = prefix (toLowerCase s) (toLowerCase n)
   \<and> tagNameStartsWith (fst (run cs (constructor t n a, w))) []
   \<and> tagNameStartsWith (fst (run cs (constructor t n a, w))) n
   \<and> tagName (fst (run cs (constructor t n a, w))) = n"
  by (simp add: tagNameStartsWith_def run_keeps_name constructor_def startsWith_prefix
      toLowerCase_def)

theorem C3_tagNameStartsWith_witness:
  "tagNameStartsWith (fst (run [RenderAndAttach, Hide] (constructor ''subjects'' ''Fantasy'' False, example_page))) ''fan''
   \<and> \<not> tagNameStartsWith (fst (run [RenderAndAttach, Hide] (constructor ''subjects'' ''Fantasy'' False, example_page))) ''xyz''"
proof -
  have l: "toLowerCase ''Fantasy'' = ''fantasy''" "toLowerCase ''fan'' = ''fan''" "toLowerCase ''xyz'' = ''xyz''"
    by code_simp+
  show ?thesis
    using C3_tagNameStartsWith [of "[RenderAndAttach, Hide]" "''subjects''" "''Fantasy''" False example_page "''fan''"]
      C3_tagNameStartsWith [of "[RenderAndAttach, Hide]" "''subjects''" "''Fantasy''" False example_page "''xyz''"]
    by (simp add: l)
qed

text \<open>
  C4, as the claim states it, fails: after \<^verbatim>\<open>renderAndAttach()\<close> and \<^verbatim>\<open>remove()\<close>,
  both completed, the node is out of the document and the reference to it is still
  set.
\<close>

theorem C4_handle_survives_remove:
  "results [RenderAndAttach, Remove] (fantasy, example_page) = [Inr (), Inr ()]
   \<and> mounted (document (snd (run [RenderAndAttach] (fantasy, example_page)))) = [0]
   \<and> mounted (document (snd (run [RenderAndAttach, Remove] (fantasy, example_page)))) = []
   \<and> selectedTag (fst (run [RenderAndAttach, Remove] (fantasy, example_page))) = Some 0"
proof -
  obtain this1 w1 where s1: "snd (renderAndAttach (fantasy, example_page)) = (this1, w1)"
    by (cases "snd (renderAndAttach (fantasy, example_page))")
  have h: "selectedTag this1 = Some 0"
    using render_example_handle [of fantasy] s1 by simp
  have d: "document w1 = Element ''body'' []
         [Element ''div'' [''selected-tag-subjects'']
            [Mounted 0, Element ''h3'' [] [Text ''Subjects'']]]"
    using example_render_document [of fantasy] s1 by simp
  show ?thesis
    by (simp add: render_example_fst s1 remove_def h d)
qed

text \<open>
  C4, amended. On a constructed instance, after any sequence of calls, the reference to
  the root element is set exactly when a \<^verbatim>\<open>renderAndAttach()\<close> call of the sequence
  has completed. \<^verbatim>\<open>remove()\<close> never changes the reference: with the reference set it
  completes and takes the node out of the document's element tree, and the reference
  stays.
\<close>

theorem C4_handle_set_once_rendered:
  "(selectedTag (fst (run calls (constructor t n a, w))) \<noteq> None)
     = ((RenderAndAttach, Inr ()) \<in> set (zip calls (results calls (constructor t n a, w))))
   \<and> selectedTag (fst (snd (remove s))) = selectedTag (fst s)
   \<and> (selectedTag (fst s) = Some r \<and> document (snd s) = Element e cs ks \<longrightarrow>
        remove s = (Inr (), fst s, (snd s)\<lparr>document := detach r (document (snd s))\<rparr>)
        \<and> r \<notin> set (mounted (detach r (document (snd s)))))"
proof -
  have 1: "(selectedTag (fst (run calls (constructor t n a, w))) \<noteq> None)
     = ((RenderAndAttach, Inr ()) \<in> set (zip calls (results calls (constructor t n a, w))))"
    unfolding run_handle by (simp add: constructor_def)
  have 3: "selectedTag (fst s) = Some r \<and> document (snd s) = Element e cs ks \<longrightarrow>
        remove s = (Inr (), fst s, (snd s)\<lparr>document := detach r (document (snd s))\<rparr>)
        \<and> r \<notin> set (mounted (detach r (document (snd s))))"
    using mounted_detach(1) [of "document (snd s)" r]
    by (cases s) (auto simp: remove_def)
  show ?thesis using 1 remove_handle 3 by blast
qed

theorem C4_handle_set_once_rendered_witness:
  "(RenderAndAttach, Inr ()) \<in> set (zip [RenderAndAttach, Remove]
        (results [RenderAndAttach, Remove] (constructor ''subjects'' ''Fantasy'' False, example_page)))
   \<and> selectedTag (fst (run [RenderAndAttach, Remove]
        (constructor ''subjects'' ''Fantasy'' False, example_page))) \<noteq> None
   \<and> results [RenderAndAttach, Hide] (constructor ''subjects'' ''Fantasy'' False, bare_page)
       = [Inl TypeError, Inl TypeError]
   \<and> selectedTag (fst (run [RenderAndAttach, Hide]
        (constructor ''subjects'' ''Fantasy'' False, bare_page))) = None
   \<and> selectedTag (fst (snd (renderAndAttach (fantasy, example_page)))) = Some 0
   \<and> 0 \<notin> set (mounted (detach 0 (document (snd (snd (renderAndAttach (fantasy, example_page)))))))"
proof -
  have a: "(RenderAndAttach, Inr ()) \<in> set (zip [RenderAndAttach, Remove]
        (results [RenderAndAttach, Remove] (constructor ''subjects'' ''Fantasy'' False, example_page)))"
    by (simp add: render_example_fst)
  have f: "fst (renderAndAttach (constructor ''subjects'' ''Fantasy'' False, bare_page))
        = Inl TypeError"
      "fst (snd (renderAndAttach (constructor ''subjects'' ''Fantasy'' False, bare_page)))
        = constructor ''subjects'' ''Fantasy'' False"
    by (simp_all add: renderAndAttach_eq document_querySelector_def bare_page_def)
  have n: "selectedTag (constructor ''subjects'' ''Fantasy'' False) = None"
    by (simp add: constructor_def)
  have b: "results [RenderAndAttach, Hide] (constructor ''subjects'' ''Fantasy'' False, bare_page)
       = [Inl TypeError, Inl TypeError]"
    using f n
    by (cases "snd (renderAndAttach (constructor ''subjects'' ''Fantasy'' False, bare_page))")
       (simp add: hide_def)
  have b': "(RenderAndAttach, Inr ()) \<notin> set (zip [RenderAndAttach, Hide]
        (results [RenderAndAttach, Hide] (constructor ''subjects'' ''Fantasy'' False, bare_page)))"
    unfolding b by simp
  have c: "selectedTag (fst (snd (renderAndAttach (fantasy, example_page)))) = Some 0
      \<and> document (snd (snd (renderAndAttach (fantasy, example_page))))
          = Element ''body'' []
             [Element ''div'' [''selected-tag-subjects'']
               [Mounted 0, Element ''h3'' [] [Text ''Subjects'']]]"
    by (simp add: render_example_handle example_render_document)
  show ?thesis
    using C4_handle_set_once_rendered
        [of "[RenderAndAttach, Remove]" "''subjects''" "''Fantasy''" False example_page
            "snd (renderAndAttach (fantasy, example_page))" 0]
      C4_handle_set_once_rendered
        [of "[RenderAndAttach, Hide]" "''subjects''" "''Fantasy''" False bare_page
            "snd (renderAndAttach (fantasy, example_page))" 0]
      a b b' c
    by blast
qed

text \<open>
  C5, as the claim states it, fails: for the tag type \<^verbatim>\<open>authors\<close>, which is none of
  the four categories, the rendered node has its category element, and that element
  carries the malformed class \<^verbatim>\<open>selected-tag__typeundefined\<close>.
\<close>

theorem C5_category_marker_not_omitted:
  "classTypeSuffixes ''authors'' = None
   \<and> fst (renderAndAttach (constructor ''authors'' ''Fantasy'' False, example_page)) = Inr ()
   \<and> type_classes (snd (renderAndAttach (constructor ''authors'' ''Fantasy'' False, example_page)))
       = Some [''selected-tag__type'', ''selected-tag__typeundefined'']"
  using render_undefined_type [OF authors_unrecognized render_example_ok] authors_unrecognized(1)
    render_example_fst
  by blast

text \<open>
  C5, amended. For a tag type that is none of the four categories and names no property
  handed down by \<^verbatim>\<open>Object.prototype\<close>, \<^verbatim>\<open>renderAndAttach()\<close> renders the category
  element all the same, third child of the node behind the status element and the
  line break: its classes are \<^verbatim>\<open>selected-tag__type\<close> and
  \<^verbatim>\<open>selected-tag__typeundefined\<close>, so none of the four category classes.
\<close>

theorem C5_unrecognized_type_renders_undefined_class:
  assumes "classTypeSuffixes t = None" and "objectPrototype w t = None"
    and "renderAndAttach (constructor t n a, w) = (Inr (), s1)"
  shows "type_classes s1 = Some [''selected-tag__type'', ''selected-tag__typeundefined'']
    \<and> (\<exists>ns. mounted_node s1
          = Some (Element ''div'' [''selected-tag'']
               (status_span a # template_gap
                # Element ''span'' [''selected-tag__type'', ''selected-tag__typeundefined''] []
                # ns)))"
  using assms by (rule render_undefined_type)

theorem C5_unrecognized_type_renders_undefined_class_witness:
  "classTypeSuffixes ''subject'' = None
   \<and> objectPrototype example_page ''subject'' = None
   \<and> fst (renderAndAttach (constructor ''subject'' ''Fantasy'' True, example_page)) = Inr ()
   \<and> type_classes (snd (renderAndAttach (constructor ''subject'' ''Fantasy'' True, example_page)))
       = Some [''selected-tag__type'', ''selected-tag__typeundefined'']"
proof -
  have u: "classTypeSuffixes ''subject'' = None" "objectPrototype example_page ''subject'' = None"
    by (simp_all add: classTypeSuffixes_def example_page_def)
  show ?thesis
    using C5_unrecognized_type_renders_undefined_class [OF u render_example_ok] u render_example_fst
    by blast
qed

text \<open>
  C6. The build tool selects a file when its name contains \<^verbatim>\<open>.vue\<close> anywhere, not
  only at its end, and removes the first occurrence: the backup file
  \<^verbatim>\<open>BulkSearch.vue.orig\<close> is selected and becomes the component
  \<^verbatim>\<open>BulkSearch.orig\<close>, with an entry module and an output file of that name.
\<close>

theorem C6_selects_files_not_ending_in_vue:
  "getComponentNames [''BarcodeScanner.vue'', ''BulkSearch.vue.orig'']
     = [''BarcodeScanner'', ''BulkSearch.orig'']
   \<and> \<not> endsWith ''BulkSearch.vue.orig'' ''.vue''
   \<and> rollup_input (getComponentNames [''BarcodeScanner.vue'', ''BulkSearch.vue.orig''])
     = [(''BarcodeScanner'', ''static/build/vue-tmp-BarcodeScanner.js''),
        (''BulkSearch.orig'', ''static/build/vue-tmp-BulkSearch.orig.js'')]
   \<and> map fst (generated_files (getComponentNames [''BarcodeScanner.vue'', ''BulkSearch.vue.orig'']))
     = [''static/build/vue-tmp-BarcodeScanner.js'', ''static/build/vue-tmp-BulkSearch.orig.js'']
   \<and> entryFileNames ''BulkSearch.orig'' = ''ol-BulkSearch.orig.js''
   \<and> output_format = ''es''"
  by (simp add: getComponentNames_def endsWith_def generated_files_def generateViteEntryFile_def
      rollup_input_def entry_file_def join_BUILD_DIR_def BUILD_DIR_def entryFileNames_def
      output_format_def)

text \<open>
  C7. After \<^verbatim>\<open>renderAndAttach()\<close> on a constructed instance the node is mounted,
  \<open>isVisible\<close> is true and the hidden-state marker is absent. After any further calls
  of \<^verbatim>\<open>hide\<close>, \<^verbatim>\<open>show\<close>, \<^verbatim>\<open>toggleVisibility\<close>, \<^verbatim>\<open>updateAllWorksTagged\<close> and
  \<^verbatim>\<open>remove\<close>, each of which completes, the node is still mounted and \<open>isVisible\<close> is
  true exactly when the marker is absent; two calls of \<^verbatim>\<open>toggleVisibility\<close> then
  leave \<open>isVisible\<close> and the presence of the marker as they were. (The instance is
  rendered once, as the spec requires of its caller.)
\<close>

theorem C7_isVisible_mirrors_hidden_marker:
  assumes "renderAndAttach (constructor t n a, w) = (Inr (), s1)"
    and "RenderAndAttach \<notin> set calls"
  shows "mounted_node s1 \<noteq> None \<and> isVisible (fst s1) \<and> \<not> hidden_marker s1
    \<and> set (results calls s1) \<subseteq> {Inr ()}
    \<and> mounted_node (run calls s1) \<noteq> None
    \<and> isVisible (fst (run calls s1)) = (\<not> hidden_marker (run calls s1))
    \<and> isVisible (fst (run [ToggleVisibility, ToggleVisibility] (run calls s1)))
        = isVisible (fst (run calls s1))
    \<and> hidden_marker (run [ToggleVisibility, ToggleVisibility] (run calls s1))
        = hidden_marker (run calls s1)"
proof -
  obtain rest where r1: "rendered_as (next_ref w) [''selected-tag''] a rest s1"
    and v1: "isVisible (fst s1)"
    using render_visible [OF assms(1)] by blast
  have v1': "isVisible (fst s1) = (''hidden'' \<notin> set [''selected-tag''])"
    using v1 by simp
  have first: "mounted_node s1 \<noteq> None \<and> isVisible (fst s1) \<and> \<not> hidden_marker s1"
    using v1 by (simp add: hidden_marker_rendered [OF r1] mounted_node_rendered [OF r1])
  obtain cs b where ok: "set (results calls s1) \<subseteq> {Inr ()}"
    and r: "rendered_as (next_ref w) cs b rest (run calls s1)"
    and v: "isVisible (fst (run calls s1)) = (''hidden'' \<notin> set cs)"
    using run_rendered [OF r1 v1' assms(2)] by blast
  have now: "mounted_node (run calls s1) \<noteq> None
      \<and> isVisible (fst (run calls s1)) = (\<not> hidden_marker (run calls s1))"
    using v by (simp add: hidden_marker_rendered [OF r] mounted_node_rendered [OF r])
  have tt: "RenderAndAttach \<notin> set (calls @ [ToggleVisibility, ToggleVisibility])"
    using assms(2) by simp
  obtain this w' where s: "run calls s1 = (this, w')" by (cases "run calls s1")
  note rs = r [unfolded s]
  have t1: "rendered_as (next_ref w) (classList_toggle ''hidden'' cs) b rest
              (snd (toggleVisibility (this, w')))"
    using rs by (simp add: toggle_rendered [OF rs] rendered_as_def)
  obtain this2 w2 where s2: "snd (toggleVisibility (this, w')) = (this2, w2)"
    by (cases "snd (toggleVisibility (this, w'))")
  note rs2 = t1 [unfolded s2]
  have t2: "rendered_as (next_ref w) (classList_toggle ''hidden'' (classList_toggle ''hidden'' cs)) b rest
              (snd (toggleVisibility (this2, w2)))"
    using rs2 by (simp add: toggle_rendered [OF rs2] rendered_as_def)
  have vis: "isVisible (fst (snd (toggleVisibility (this2, w2)))) = isVisible this"
    using s2 by (auto simp: toggle_rendered [OF rs2] toggle_rendered [OF rs])
  have twice: "isVisible (fst (run [ToggleVisibility, ToggleVisibility] (run calls s1)))
        = isVisible (fst (run calls s1))
    \<and> hidden_marker (run [ToggleVisibility, ToggleVisibility] (run calls s1))
        = hidden_marker (run calls s1)"
    using vis
    by (simp add: s s2 hidden_marker_rendered [OF t2] hidden_marker_rendered [OF rs] hidden_toggle)
  show ?thesis using first ok now twice by blast
qed

theorem C7_isVisible_mirrors_hidden_marker_witness:
  "fst (renderAndAttach (fantasy, example_page)) = Inr ()
   \<and> RenderAndAttach \<notin> set [UpdateAllWorksTagged True, Hide]
   \<and> isVisible (fst (snd (renderAndAttach (fantasy, example_page))))
   \<and> \<not> hidden_marker (snd (renderAndAttach (fantasy, example_page)))
   \<and> isVisible (fst (run [UpdateAllWorksTagged True, Hide] (snd (renderAndAttach (fantasy, example_page)))))
       = (\<not> hidden_marker (run [UpdateAllWorksTagged True, Hide] (snd (renderAndAttach (fantasy, example_page)))))
   \<and> hidden_marker (run [ToggleVisibility, ToggleVisibility]
         (run [UpdateAllWorksTagged True, Hide] (snd (renderAndAttach (fantasy, example_page)))))
       = hidden_marker (run [UpdateAllWorksTagged True, Hide] (snd (renderAndAttach (fantasy, example_page))))"
proof -
  have h: "renderAndAttach (constructor ''subjects'' ''Fantasy'' False, example_page)
             = (Inr (), snd (renderAndAttach (fantasy, example_page)))"
    using render_example_ok [of fantasy] by (simp add: fantasy_def)
  have n: "RenderAndAttach \<notin> set [UpdateAllWorksTagged True, Hide]"
    by simp
  show ?thesis
    using C7_isVisible_mirrors_hidden_marker [OF h n] render_example_fst [of fantasy] n
    by blast
qed

text \<open>
  C8. In every state a rendered instance reaches by further calls of any of its
  methods, \<^verbatim>\<open>hide()\<close> and
  \<^verbatim>\<open>show()\<close> complete and a second call of either changes nothing more;
  \<^verbatim>\<open>hide()\<close> on a hidden instance (not visible, marker present) and \<^verbatim>\<open>show()\<close> on a
  visible one (visible, marker absent) leave the instance and the page as they are;
  \<^verbatim>\<open>hide()\<close> sets the marker and clears \<open>isVisible\<close>; and \<^verbatim>\<open>hide()\<close> followed by
  \<^verbatim>\<open>show()\<close> ends visible with the marker absent, whatever the visibility before.
\<close>

theorem C8_hide_show_idempotent:
  assumes "renderAndAttach (constructor t n a, w) = (Inr (), s1)"
  shows "fst (hide (run calls s1)) = Inr ()
    \<and> hide (snd (hide (run calls s1))) = hide (run calls s1)
    \<and> fst (show_tag (run calls s1)) = Inr ()
    \<and> show_tag (snd (show_tag (run calls s1))) = show_tag (run calls s1)
    \<and> (\<not> isVisible (fst (run calls s1)) \<and> hidden_marker (run calls s1)
          \<longrightarrow> hide (run calls s1) = (Inr (), run calls s1))
    \<and> (isVisible (fst (run calls s1)) \<and> \<not> hidden_marker (run calls s1)
          \<longrightarrow> show_tag (run calls s1) = (Inr (), run calls s1))
    \<and> \<not> isVisible (fst (run [Hide] (run calls s1))) \<and> hidden_marker (run [Hide] (run calls s1))
    \<and> isVisible (fst (run [Hide, Show] (run calls s1)))
    \<and> \<not> hidden_marker (run [Hide, Show] (run calls s1))"
proof -
  obtain rest where r1: "rendered_as (next_ref w) [''selected-tag''] a rest s1"
    and f: "fst s1 = (constructor t n a)\<lparr>selectedTag := Some (next_ref w)\<rparr>"
    using render_rendered [OF assms(1)] by (auto simp: constructor_def)
  have r0: "rendered_as (next_ref w) [''selected-tag''] (allWorksTagged (fst s1)) rest s1"
    using r1 by (simp add: f constructor_def)
  have n1: "next_ref w < next_ref (snd s1)"
    using render_next_ref [OF assms(1)] by simp
  obtain r cs rest'
    where r: "rendered_as r cs (allWorksTagged (fst (run calls s1))) rest' (run calls s1)"
    using run_keeps_status [OF r0 n1] by blast
  show ?thesis using hide_show_rendered [OF r] by simp
qed

theorem C8_hide_show_idempotent_witness:
  "fst (renderAndAttach (fantasy, example_page)) = Inr ()
   \<and> hide (snd (hide (run [UpdateAllWorksTagged True] (snd (renderAndAttach (fantasy, example_page))))))
       = hide (run [UpdateAllWorksTagged True] (snd (renderAndAttach (fantasy, example_page))))
   \<and> \<not> isVisible (fst (run [Hide] (run [UpdateAllWorksTagged True] (snd (renderAndAttach (fantasy, example_page))))))
   \<and> hidden_marker (run [Hide] (run [UpdateAllWorksTagged True] (snd (renderAndAttach (fantasy, example_page)))))
   \<and> isVisible (fst (run [Hide, Show] (run [UpdateAllWorksTagged True] (snd (renderAndAttach (fantasy, example_page))))))
   \<and> \<not> hidden_marker (run [Hide, Show] (run [UpdateAllWorksTagged True] (snd (renderAndAttach (fantasy, example_page)))))"
proof -
  have h: "renderAndAttach (constructor ''subjects'' ''Fantasy'' False, example_page)
             = (Inr (), snd (renderAndAttach (fantasy, example_page)))"
    using render_example_ok [of fantasy] by (simp add: fantasy_def)
  show ?thesis
    using C8_hide_show_idempotent [OF h, of "[UpdateAllWorksTagged True]"]
      render_example_fst [of fantasy]
    by blast
qed

text \<open>
  C9. On an instance whose root element reference is unset,
  \<^verbatim>\<open>updateAllWorksTagged(v)\<close> throws a TypeError after it has set the field
  \<open>allWorksTagged\<close> to \<open>v\<close>: the instance is changed although the call failed. \<^verbatim>\<open>hide()\<close>
  and \<^verbatim>\<open>show()\<close> throw there with the instance and the page unchanged.
\<close>

theorem C9_update_before_render_not_atomic:
  assumes "selectedTag this = None"
  shows "updateAllWorksTagged v (this, w) = (Inl TypeError, this\<lparr>allWorksTagged := v\<rparr>, w)
         \<and> hide (this, w) = (Inl TypeError, this, w)
         \<and> show_tag (this, w) = (Inl TypeError, this, w)"
  using assms by (simp add: method_defs)

theorem C9_update_before_render_not_atomic_witness:
  "selectedTag (constructor ''subjects'' ''Fantasy'' False) = None
   \<and> updateAllWorksTagged True (constructor ''subjects'' ''Fantasy'' False, example_page)
       = (Inl TypeError, constructor ''subjects'' ''Fantasy'' True, example_page)
   \<and> hide (constructor ''subjects'' ''Fantasy'' False, example_page)
       = (Inl TypeError, constructor ''subjects'' ''Fantasy'' False, example_page)
   \<and> show_tag (constructor ''subjects'' ''Fantasy'' False, example_page)
       = (Inl TypeError, constructor ''subjects'' ''Fantasy'' False, example_page)"
proof -
  have h: "selectedTag (constructor ''subjects'' ''Fantasy'' False) = None"
    by (simp add: constructor_def)
  have u: "(constructor ''subjects'' ''Fantasy'' False)\<lparr>allWorksTagged := True\<rparr>
             = constructor ''subjects'' ''Fantasy'' True"
    by (simp add: constructor_def)
  show ?thesis
    using C9_update_before_render_not_atomic [OF h, of True example_page] h u by simp
qed

text \<open>
  C10. When \<^verbatim>\<open>remove()\<close> has completed, a second \<^verbatim>\<open>remove()\<close> completes as well
  and leaves the instance and the page as they are.
\<close>

theorem C10_second_remove_is_noop:
  assumes "remove s = (Inr (), s1)"
  shows "remove s1 = (Inr (), s1)"
  using assms
  by (cases s) (auto simp: remove_def detach_idem split: option.splits)

theorem C10_second_remove_is_noop_witness:
  "remove (snd (renderAndAttach (fantasy, example_page)))
     = (Inr (), snd (remove (snd (renderAndAttach (fantasy, example_page)))))
   \<and> remove (snd (remove (snd (renderAndAttach (fantasy, example_page)))))
     = (Inr (), snd (remove (snd (renderAndAttach (fantasy, example_page)))))"
proof -
  have h: "remove (snd (renderAndAttach (fantasy, example_page)))
     = (Inr (), snd (remove (snd (renderAndAttach (fantasy, example_page)))))"
    using render_example_handle [of fantasy]
    by (cases "snd (renderAndAttach (fantasy, example_page))") (simp add: remove_def)
  show ?thesis
    using C10_second_remove_is_noop [OF h] h by simp
qed

end
